theory Spec2Isabelle
  imports Main "HOL-Library.Char_ord" "HOL-Library.List_Lexorder" "HOL-Library.Sublist"
begin

section \<open>Sweep-configuration generator: a model of \<^verbatim>\<open>generate_sweep_configs.py\<close>\<close>

text \<open>
  Python integers are unbounded, so every integer of the source is an \<^typ>\<open>int\<close>.
  A function of the source that contains a \<^verbatim>\<open>while\<close> loop returns an \<open>option\<close>:
  \<open>None\<close> is the run that never leaves the loop.
\<close>

subsection \<open>Errors and data\<close>

text \<open>
  Every \<^verbatim>\<open>raise\<close> of the source, and every exception of a built-in that the source can
  run into, is a value: a function that can raise returns \<open>error + 'a\<close>, with \<open>Inl\<close> the
  exception.
  \<^item> \<open>KeyError f\<close>: a subscript \<^verbatim>\<open>d[Fields.F.value]\<close> on a dictionary without that key;
  \<^item> \<open>NameKeyError s\<close>: the \<^verbatim>\<open>KeyError\<close> of a dictionary keyed by names
    (\<^verbatim>\<open>seq_len_stoi[s]\<close>, \<^verbatim>\<open>all_config_data[s]\<close>);
  \<^item> \<open>ValueError msg\<close>: a \<^verbatim>\<open>raise ValueError(msg)\<close> of the source;
  \<^item> \<open>EmptySequence\<close>: the \<^verbatim>\<open>ValueError\<close> of \<^verbatim>\<open>min\<close> or \<^verbatim>\<open>max\<close> on an empty sequence;
  \<^item> \<open>TypeError\<close>: an integer compared with a list;
  \<^item> \<open>SchemaViolation\<close>: what \<^verbatim>\<open>validate_matrix_entry\<close> raises.
\<close>

datatype field = TP | CONC_START | CONC_END | PREFILL | DECODE

datatype error =
    KeyError field
  | NameKeyError string
  | ValueError string
  | EmptySequence
  | TypeError
  | SchemaViolation

text \<open>
  A dictionary with a fixed set of string keys is a record; a key that only some of the
  dictionaries have is an optional field. The \<^verbatim>\<open>prefill\<close> and \<^verbatim>\<open>decode\<close> sub-dictionaries
  of a multinode benchmark point (\<^verbatim>\<open>additional-settings\<close> is read with \<^verbatim>\<open>.get\<close>):
\<close>

record worker =
  w_num_worker :: int
  w_tp :: int
  w_ep :: int
  w_dp_attn :: bool
  w_additional_settings :: "string list option"

text \<open>
  The \<^verbatim>\<open>conc\<close> entry of a matrix entry holds an integer (single-node) or a list of
  integers (multinode).
\<close>

datatype conc_val = Scalar int | ConcList "int list"

text \<open>
  A matrix entry, the dictionary that the generators emit. The keys \<^verbatim>\<open>tp\<close>, \<^verbatim>\<open>ep\<close>,
  \<^verbatim>\<open>dp-attn\<close> exist only in the single-node schema and \<^verbatim>\<open>prefill\<close>, \<^verbatim>\<open>decode\<close> only in
  the multinode one; every generator writes all the other keys.
\<close>

record matrix_entry =
  e_image :: string
  e_model :: string
  e_model_prefix :: string
  e_precision :: string
  e_framework :: string
  e_runner :: string
  e_isl :: int
  e_osl :: int
  e_tp :: "int option"
  e_ep :: "int option"
  e_dp_attn :: "bool option"
  e_spec_decoding :: string
  e_prefill :: "worker option"
  e_decode :: "worker option"
  e_conc :: conc_val
  e_max_model_len :: int
  e_exp_name :: string
  e_disagg :: bool
  e_run_eval :: bool

subsection \<open>Eval selection: \<^verbatim>\<open>mark_eval_entries\<close>\<close>

text \<open>
  Python's \<^verbatim>\<open>a > b\<close> on the values a \<^verbatim>\<open>conc\<close> key can hold: integers compare as
  integers, lists lexicographically, and an integer against a list raises \<^verbatim>\<open>TypeError\<close>.
\<close>

fun conc_gt :: "conc_val \<Rightarrow> conc_val \<Rightarrow> error + bool" where
  "conc_gt (Scalar a) (Scalar b) = Inr (b < a)"
| "conc_gt (ConcList a) (ConcList b) = Inr (b < a)"
| "conc_gt (Scalar a) (ConcList b) = Inl TypeError"
| "conc_gt (ConcList a) (Scalar b) = Inl TypeError"

text \<open>
  The built-in \<^verbatim>\<open>max\<close> over a sequence: the first item is the running maximum, every
  later item replaces it when \<^verbatim>\<open>item > maximum\<close>.
\<close>

fun max_from :: "conc_val \<Rightarrow> conc_val list \<Rightarrow> error + conc_val" where
  "max_from mx [] = Inr mx"
| "max_from mx (c # cs) =
     (case conc_gt c mx of
        Inl err \<Rightarrow> Inl err
      | Inr b \<Rightarrow> max_from (if b then c else mx) cs)"

fun py_max :: "conc_val list \<Rightarrow> error + conc_val" where
  "py_max [] = Inl EmptySequence"
| "py_max (c # cs) = max_from c cs"

text \<open>\<^verbatim>\<open>e[Fields.TP.value]\<close>: a subscript, which raises on a missing key.\<close>

definition get_tp :: "matrix_entry \<Rightarrow> error + int" where
  "get_tp e = (case e_tp e of None \<Rightarrow> Inl (KeyError TP) | Some t \<Rightarrow> Inr t)"

fun get_tps :: "(nat \<times> matrix_entry) list \<Rightarrow> error + int list" where
  "get_tps [] = Inr []"
| "get_tps ((i, e) # es) =
     (case get_tp e of
        Inl err \<Rightarrow> Inl err
      | Inr t \<Rightarrow> (case get_tps es of Inl err \<Rightarrow> Inl err | Inr ts \<Rightarrow> Inr (t # ts)))"

text \<open>The grouping key of an entry.\<close>

type_synonym group_key = "string \<times> string \<times> string \<times> string \<times> int \<times> int \<times> string"

definition entry_key :: "matrix_entry \<Rightarrow> group_key" where
  "entry_key entry =
     (e_model entry, e_runner entry, e_framework entry, e_precision entry, e_isl entry, e_osl entry,
      e_spec_decoding entry)"

text \<open>
  \<^verbatim>\<open>groups = defaultdict(list)\<close> is an association list in the order in which the keys
  were first inserted (the iteration order of a Python dictionary);
  \<open>groups_append\<close> is \<^verbatim>\<open>groups[key].append((i, entry))\<close>.
\<close>

type_synonym groups = "(group_key \<times> (nat \<times> matrix_entry) list) list"

fun groups_append :: "'k \<Rightarrow> 'v \<Rightarrow> ('k \<times> 'v list) list \<Rightarrow> ('k \<times> 'v list) list" where
  "groups_append key x [] = [(key, [x])]"
| "groups_append key x ((k, xs) # gs) =
     (if k = key then (k, xs @ [x]) # gs else (k, xs) # groups_append key x gs)"

text \<open>The first loop of \<^verbatim>\<open>mark_eval_entries\<close>, over \<^verbatim>\<open>enumerate(matrix_values)\<close>.\<close>

fun build_groups :: "(nat \<times> matrix_entry) list \<Rightarrow> groups \<Rightarrow> groups" where
  "build_groups [] gs = gs"
| "build_groups ((i, entry) # rest) gs =
     (if e_tp entry = None then build_groups rest gs
      else if e_isl entry \<noteq> 1024 \<or> e_osl entry \<noteq> 8192 then build_groups rest gs
      else build_groups rest (groups_append (entry_key entry) (i, entry) gs))"

text \<open>
  For the entries \<open>es\<close> that share one TP value: the indices of those whose concurrency
  is the highest (nothing when \<open>es\<close> is empty).
\<close>

definition max_conc_indices :: "(nat \<times> matrix_entry) list \<Rightarrow> error + nat set" where
  "max_conc_indices es =
     (if es \<noteq> [] then
        (case py_max (map (\<lambda>(i, e). e_conc e) es) of
           Inl err \<Rightarrow> Inl err
         | Inr max_conc \<Rightarrow> Inr (set (map fst (filter (\<lambda>(i, e). e_conc e = max_conc) es))))
      else Inr {})"

text \<open>The body of the second loop: the indices that one group contributes.\<close>

definition group_indices :: "(nat \<times> matrix_entry) list \<Rightarrow> error + nat set" where
  "group_indices entries =
     (if entries = [] then Inr {}
      else
        (case get_tps entries of
           Inl err \<Rightarrow> Inl err
         | Inr tps \<Rightarrow>
             (let min_tp = Min (set tps); max_tp = Max (set tps) in
              (case max_conc_indices (filter (\<lambda>(i, e). e_tp e = Some max_tp) entries) of
                 Inl err \<Rightarrow> Inl err
               | Inr highest \<Rightarrow>
                   if min_tp \<noteq> max_tp then
                     (case max_conc_indices (filter (\<lambda>(i, e). e_tp e = Some min_tp) entries) of
                        Inl err \<Rightarrow> Inl err
                      | Inr lowest \<Rightarrow> Inr (highest \<union> lowest))
                   else Inr highest))))"

fun eval_indices :: "('k \<times> (nat \<times> matrix_entry) list) list \<Rightarrow> nat set \<Rightarrow> error + nat set" where
  "eval_indices [] acc = Inr acc"
| "eval_indices ((key, entries) # gs) acc =
     (case group_indices entries of
        Inl err \<Rightarrow> Inl err
      | Inr sel \<Rightarrow> eval_indices gs (acc \<union> sel))"

text \<open>
  The whole function. The entries are marked only after every group has been looked at,
  so a run that raises has marked nothing.
\<close>

definition mark_eval_entries :: "matrix_entry list \<Rightarrow> error + matrix_entry list" where
  "mark_eval_entries matrix_values =
     (case eval_indices (build_groups (enumerate 0 matrix_values) []) {} of
        Inl err \<Rightarrow> Inl err
      | Inr idx \<Rightarrow>
          Inr (map (\<lambda>(i, entry). entry\<lparr>e_run_eval := (i \<in> idx)\<rparr>) (enumerate 0 matrix_values)))"

text \<open>
  The selection rule in the words of the specification, for comparison with the code.
  An entry is eligible when it has a top-level TP and its sequence lengths are
  \<open>(1024, 8192)\<close>; its group is the list of eligible entries with the same key; a
  concurrency is the maximum of a list when it occurs there and nothing in the list is
  larger.
\<close>

definition eligible :: "matrix_entry \<Rightarrow> bool" where
  "eligible e = (e_tp e \<noteq> None \<and> e_isl e = 1024 \<and> e_osl e = 8192)"

definition same_group :: "matrix_entry list \<Rightarrow> matrix_entry \<Rightarrow> matrix_entry list" where
  "same_group m e = filter (\<lambda>e'. eligible e' \<and> entry_key e' = entry_key e) m"

fun conc_le :: "conc_val \<Rightarrow> conc_val \<Rightarrow> bool" where
  "conc_le (Scalar a) (Scalar b) = (a \<le> b)"
| "conc_le (ConcList a) (ConcList b) = (a \<le> b)"
| "conc_le (Scalar a) (ConcList b) = False"
| "conc_le (ConcList a) (Scalar b) = False"

definition is_max_conc :: "conc_val \<Rightarrow> conc_val list \<Rightarrow> bool" where
  "is_max_conc c cs = (c \<in> set cs \<and> list_all (\<lambda>d. conc_le d c) cs)"

definition concs_at_tp :: "matrix_entry list \<Rightarrow> int \<Rightarrow> conc_val list" where
  "concs_at_tp g t = map e_conc (filter (\<lambda>e. e_tp e = Some t) g)"

text \<open>
  Within a group \<open>g\<close>: the entry is at the maximum TP and has the maximum concurrency
  among the entries at that TP, or the minimum TP differs from the maximum and the entry
  is at the minimum TP with the maximum concurrency among the entries at that TP.
\<close>

definition group_selected :: "matrix_entry list \<Rightarrow> matrix_entry \<Rightarrow> bool" where
  "group_selected g e =
     (let max_tp = Max (set (List.map_filter e_tp g));
          min_tp = Min (set (List.map_filter e_tp g))
      in (e_tp e = Some max_tp \<and> is_max_conc (e_conc e) (concs_at_tp g max_tp))
       \<or> (min_tp \<noteq> max_tp \<and> e_tp e = Some min_tp
            \<and> is_max_conc (e_conc e) (concs_at_tp g min_tp)))"

definition eval_selected :: "matrix_entry list \<Rightarrow> matrix_entry \<Rightarrow> bool" where
  "eval_selected m e = (eligible e \<and> group_selected (same_group m e) e)"

text \<open>
  The schema of the matrices that the generators emit: an entry with a top-level TP
  carries a single integer as its concurrency.
\<close>

definition is_scalar :: "conc_val \<Rightarrow> bool" where
  "is_scalar c = (case c of Scalar a \<Rightarrow> True | ConcList cs \<Rightarrow> False)"

definition single_node_scalar :: "matrix_entry list \<Rightarrow> bool" where
  "single_node_scalar m = list_all (\<lambda>e. e_tp e \<noteq> None \<longrightarrow> is_scalar (e_conc e)) m"

text \<open>
  For the proofs: the indexed entries of one key, and the invariant of the first loop
  (after the prefix \<open>dn\<close> of the matrix, the dictionary holds exactly the non-empty groups
  of \<open>dn\<close>, each under its key).
\<close>

definition grp :: "group_key \<Rightarrow> (nat \<times> matrix_entry) list \<Rightarrow> (nat \<times> matrix_entry) list" where
  "grp k xs = filter (\<lambda>x. eligible (snd x) \<and> entry_key (snd x) = k) xs"

definition groups_inv :: "groups \<Rightarrow> (nat \<times> matrix_entry) list \<Rightarrow> bool" where
  "groups_inv gs dn =
     (distinct (map fst gs) \<and>
      map_of gs = (\<lambda>k. if grp k dn = [] then None else Some (grp k dn)))"

text \<open>
  The synthetic group of the specification: TP 8 with concurrencies 1, 2, 4, 8 and TP 1
  with concurrencies 1, 2, all at \<open>(1024, 8192)\<close> and all with the eval flag already set,
  and the same matrix as \<^verbatim>\<open>mark_eval_entries\<close> leaves it.
\<close>

definition synthetic_entry :: "int \<Rightarrow> int \<Rightarrow> matrix_entry" where
  "synthetic_entry t c =
     \<lparr>e_image = ''img'', e_model = ''dsr1'', e_model_prefix = ''dsr1'', e_precision = ''fp8'',
      e_framework = ''vllm'', e_runner = ''h200'', e_isl = 1024, e_osl = 8192,
      e_tp = Some t, e_ep = Some 1, e_dp_attn = Some False, e_spec_decoding = ''none'',
      e_prefill = None, e_decode = None, e_conc = Scalar c, e_max_model_len = 9416,
      e_exp_name = ''dsr1_1k8k'', e_disagg = False, e_run_eval = True\<rparr>"



text \<open>
  A matrix with one entry of each kind: a selected single-node entry, a single-node entry
  at other sequence lengths and a multinode entry (no top-level TP, a list of
  concurrencies); every eval flag is set beforehand.
\<close>

definition mixed_matrix :: "matrix_entry list" where
  "mixed_matrix =
     [synthetic_entry 8 8,
      (synthetic_entry 8 16)\<lparr>e_osl := 1024\<rparr>,
      (synthetic_entry 4 32)\<lparr>e_tp := None, e_ep := None, e_dp_attn := None,
                              e_conc := ConcList [1, 2]\<rparr>]"

definition mixed_marked :: "matrix_entry list" where
  "mixed_marked =
     [synthetic_entry 8 8,
      (synthetic_entry 8 16)\<lparr>e_osl := 1024, e_run_eval := False\<rparr>,
      (synthetic_entry 4 32)\<lparr>e_tp := None, e_ep := None, e_dp_attn := None,
                              e_conc := ConcList [1, 2], e_run_eval := False\<rparr>]"

subsection \<open>Concurrency range expansion\<close>

text \<open>
  The loop that appears (with the same body) in the multinode branch of
  \<^verbatim>\<open>generate_full_sweep\<close> and twice in \<^verbatim>\<open>generate_test_config_sweep\<close>:
  \<^verbatim>\<open>
    while conc <= conc_end:
        conc_values.append(conc)
        if conc == conc_end:
            break
        conc *= step
        if conc > conc_end:
            conc = conc_end
  \<close>
  The loop state is the pair \<open>(conc, conc_values)\<close>.
\<close>

partial_function (option) conc_loop :: "int \<Rightarrow> int \<Rightarrow> int \<Rightarrow> int list \<Rightarrow> int list option" where
  "conc_loop conc conc_end step conc_values =
     (if conc \<le> conc_end then
        (if conc = conc_end then Some (conc_values @ [conc])
         else conc_loop (if conc * step > conc_end then conc_end else conc * step)
                conc_end step (conc_values @ [conc]))
      else Some conc_values)"

text \<open>\<^verbatim>\<open>conc_values = []; conc = conc_start\<close>, then the loop.\<close>

definition conc_range :: "int \<Rightarrow> int \<Rightarrow> int \<Rightarrow> int list option" where
  "conc_range conc_start conc_end step = conc_loop conc_start conc_end step []"

subsection \<open>The catalog and the runner inventory\<close>

text \<open>
  A benchmark point of a search space. Which keys it has depends on its shape, and the
  generators read some of them with a subscript and some with \<^verbatim>\<open>.get\<close>, so every key is
  optional here and a subscript on a missing key is a \<open>KeyError\<close>.
\<close>

record bmk_point =
  b_tp :: "int option"
  b_ep :: "int option"
  b_dp_attn :: "bool option"
  b_spec_decoding :: "string option"
  b_conc_start :: "int option"
  b_conc_end :: "int option"
  b_conc_list :: "int list option"
  b_prefill :: "worker option"
  b_decode :: "worker option"

record seq_len_config =
  s_isl :: int
  s_osl :: int
  s_search_space :: "bmk_point list"

record config_entry =
  c_image :: string
  c_model :: string
  c_model_prefix :: string
  c_precision :: string
  c_framework :: string
  c_runner :: string
  c_multinode :: "bool option"
  c_disagg :: "bool option"
  c_seq_len_configs :: "seq_len_config list"

text \<open>
  \<^verbatim>\<open>all_config_data\<close> and \<^verbatim>\<open>runner_data\<close> are dictionaries that the generators iterate in
  insertion order: association lists (with distinct keys), looked up with \<open>map_of\<close>.
\<close>

type_synonym catalog = "(string \<times> config_entry) list"

type_synonym runner_catalog = "(string \<times> string list) list"

subsection \<open>Small pieces of Python\<close>

text \<open>
  An \<^verbatim>\<open>argparse\<close> option with \<^verbatim>\<open>nargs='+'\<close> is \<^verbatim>\<open>None\<close> or a list, and the source tests it
  by truth value: \<^verbatim>\<open>if args.x:\<close> is \<open>given (x args) \<noteq> []\<close>. A string option is tested the
  same way. \<open>get_flag\<close> is \<^verbatim>\<open>val.get(key, False)\<close>.
\<close>

definition given :: "'a list option \<Rightarrow> 'a list" where
  "given x = (case x of None \<Rightarrow> [] | Some xs \<Rightarrow> xs)"

definition get_flag :: "bool option \<Rightarrow> bool" where
  "get_flag x = (case x of None \<Rightarrow> False | Some b \<Rightarrow> b)"

text \<open>\<^verbatim>\<open>sep.join(xs)\<close>.\<close>

fun join :: "string \<Rightarrow> string list \<Rightarrow> string" where
  "join sep [] = []"
| "join sep [x] = x"
| "join sep (x # y # ys) = x @ sep @ join sep (y # ys)"

text \<open>The decimal rendering of an integer in an f-string.\<close>

function show_nat :: "nat \<Rightarrow> string" where
  "show_nat n =
     (if n < 10 then [''0123456789'' ! n]
      else show_nat (n div 10) @ [''0123456789'' ! (n mod 10)])"
  by pat_completeness auto
termination
  by (relation "measure (\<lambda>n. n)") auto

definition show_int :: "int \<Rightarrow> string" where
  "show_int i = (if i < 0 then CHR ''-'' # show_nat (nat (- i)) else show_nat (nat i))"

definition seq_len_stoi :: "(string \<times> int \<times> int) list" where
  "seq_len_stoi = [(''1k1k'', (1024, 1024)), (''1k8k'', (1024, 8192)), (''8k1k'', (8192, 1024))]"

definition seq_len_itos :: "((int \<times> int) \<times> string) list" where
  "seq_len_itos = map (\<lambda>(k, v). (v, k)) seq_len_stoi"

definition seq_len_to_str :: "int \<Rightarrow> int \<Rightarrow> string" where
  "seq_len_to_str isl' osl' =
     (case map_of seq_len_itos (isl', osl') of
        Some name \<Rightarrow> name
      | None \<Rightarrow> show_int isl' @ ''_'' @ show_int osl')"

text \<open>
  Modelled from the spec: \<^verbatim>\<open>validate_matrix_entry\<close> of \<^verbatim>\<open>validation.py\<close>, which is imported
  but is not among the sources. The specification makes it a check that is run on every
  entry before the entry is appended, and that aborts the whole run on a schema
  violation; an entry that passes is appended as it is. The schema itself is the
  parameter \<open>schema_ok\<close>.
\<close>

definition validate_matrix_entry ::
  "(matrix_entry \<Rightarrow> bool \<Rightarrow> bool) \<Rightarrow> matrix_entry \<Rightarrow> bool \<Rightarrow> error + matrix_entry" where
  "validate_matrix_entry schema_ok entry is_multinode =
     (if schema_ok entry is_multinode then Inr entry else Inl SchemaViolation)"

text \<open>
  A \<^verbatim>\<open>for\<close> loop that builds one entry per item, validates it and appends it: the entries
  in order, or the first exception.
\<close>

fun validate_all ::
  "(matrix_entry \<Rightarrow> bool \<Rightarrow> bool) \<Rightarrow> bool \<Rightarrow> matrix_entry list \<Rightarrow> error + matrix_entry list" where
  "validate_all schema_ok is_multinode [] = Inr []"
| "validate_all schema_ok is_multinode (entry # rest) =
     (case validate_matrix_entry schema_ok entry is_multinode of
        Inl err \<Rightarrow> Inl err
      | Inr v \<Rightarrow>
          (case validate_all schema_ok is_multinode rest of
             Inl err \<Rightarrow> Inl err
           | Inr vs \<Rightarrow> Inr (v # vs)))"

text \<open>
  The generators only ever append to \<^verbatim>\<open>matrix_values\<close>, so a loop over a list whose body
  appends some entries, raises, or does not return is the concatenation of what the
  bodies append, up to the first body that raises or does not return.
\<close>

fun collect :: "('a \<Rightarrow> (error + 'b list) option) \<Rightarrow> 'a list \<Rightarrow> (error + 'b list) option" where
  "collect f [] = Some (Inr [])"
| "collect f (x # xs) =
     (case f x of
        None \<Rightarrow> None
      | Some (Inl err) \<Rightarrow> Some (Inl err)
      | Some (Inr ys) \<Rightarrow>
          (case collect f xs of
             None \<Rightarrow> None
           | Some (Inl err) \<Rightarrow> Some (Inl err)
           | Some (Inr zs) \<Rightarrow> Some (Inr (ys @ zs))))"

fun collect_err :: "('a \<Rightarrow> error + 'b list) \<Rightarrow> 'a list \<Rightarrow> error + 'b list" where
  "collect_err f [] = Inr []"
| "collect_err f (x # xs) =
     (case f x of
        Inl err \<Rightarrow> Inl err
      | Inr ys \<Rightarrow> (case collect_err f xs of Inl err \<Rightarrow> Inl err | Inr zs \<Rightarrow> Inr (ys @ zs)))"

subsection \<open>The emitted dictionaries\<close>

text \<open>
  The dictionary literal of the multinode branches of \<^verbatim>\<open>generate_full_sweep\<close> and
  \<^verbatim>\<open>generate_test_config_sweep\<close> (the two are the same, key by key).
\<close>

definition multinode_entry ::
  "config_entry \<Rightarrow> int \<Rightarrow> int \<Rightarrow> string \<Rightarrow> worker \<Rightarrow> worker \<Rightarrow> int list \<Rightarrow> string \<Rightarrow> matrix_entry" where
  "multinode_entry val isl' osl' spec_decoding prefill decode conc_values runner_value =
     \<lparr>e_image = c_image val, e_model = c_model val, e_model_prefix = c_model_prefix val,
      e_precision = c_precision val, e_framework = c_framework val, e_runner = runner_value,
      e_isl = isl', e_osl = osl', e_tp = None, e_ep = None, e_dp_attn = None,
      e_spec_decoding = spec_decoding, e_prefill = Some prefill, e_decode = Some decode,
      e_conc = ConcList conc_values, e_max_model_len = isl' + osl' + 200,
      e_exp_name = c_model_prefix val @ ''_'' @ seq_len_to_str isl' osl',
      e_disagg = get_flag (c_disagg val), e_run_eval = False\<rparr>"

text \<open>
  The dictionary of the single-node branches: \<^verbatim>\<open>ep\<close> and \<^verbatim>\<open>dp-attn\<close> default to \<open>1\<close> and
  \<open>False\<close> when the benchmark point has none.
\<close>

definition single_node_entry ::
  "config_entry \<Rightarrow> int \<Rightarrow> int \<Rightarrow> int \<Rightarrow> int option \<Rightarrow> bool option \<Rightarrow> string \<Rightarrow> int \<Rightarrow> string
     \<Rightarrow> matrix_entry" where
  "single_node_entry val isl' osl' tp ep dp_attn spec_decoding conc runner_value =
     \<lparr>e_image = c_image val, e_model = c_model val, e_model_prefix = c_model_prefix val,
      e_precision = c_precision val, e_framework = c_framework val, e_runner = runner_value,
      e_isl = isl', e_osl = osl', e_tp = Some tp,
      e_ep = Some (case ep of None \<Rightarrow> 1 | Some x \<Rightarrow> x),
      e_dp_attn = Some (case dp_attn of None \<Rightarrow> False | Some x \<Rightarrow> x),
      e_spec_decoding = spec_decoding, e_prefill = None, e_decode = None,
      e_conc = Scalar conc, e_max_model_len = isl' + osl' + 200,
      e_exp_name = c_model_prefix val @ ''_'' @ seq_len_to_str isl' osl',
      e_disagg = get_flag (c_disagg val), e_run_eval = False\<rparr>"

text \<open>\<^verbatim>\<open>bmk.get(Fields.SPEC_DECODING.value, "none")\<close>.\<close>

definition get_spec_decoding :: "bmk_point \<Rightarrow> string" where
  "get_spec_decoding bmk = (case b_spec_decoding bmk of None \<Rightarrow> ''none'' | Some sd \<Rightarrow> sd)"

text \<open>
  The range form of a concurrency specification: two subscripts, then the loop.
\<close>

definition range_of_point :: "int \<Rightarrow> bmk_point \<Rightarrow> (error + int list) option" where
  "range_of_point step bmk =
     (case b_conc_start bmk of
        None \<Rightarrow> Some (Inl (KeyError CONC_START))
      | Some conc_start \<Rightarrow>
          (case b_conc_end bmk of
             None \<Rightarrow> Some (Inl (KeyError CONC_END))
           | Some conc_end \<Rightarrow> map_option Inr (conc_range conc_start conc_end step)))"

subsection \<open>\<^verbatim>\<open>generate_full_sweep\<close>\<close>

record full_sweep_args =
  fs_model_prefix :: "string list option"
  fs_precision :: "string list option"
  fs_framework :: "string list option"
  fs_runner_type :: "string list option"
  fs_seq_lens :: "string list option"
  fs_step_size :: int
  fs_min_conc :: "int option"
  fs_max_conc :: "int option"
  fs_max_tp :: "int option"
  fs_max_ep :: "int option"
  fs_single_node :: bool
  fs_multi_node :: bool
  fs_runner_node_filter :: "string option"

text \<open>
  \<^verbatim>\<open>runners_for_entry = runner_nodes_to_use if runner_nodes_to_use else [runner]\<close>.
\<close>

definition runners_for_entry :: "string list option \<Rightarrow> string \<Rightarrow> string list" where
  "runners_for_entry runner_nodes_to_use runner_type =
     (if given runner_nodes_to_use \<noteq> [] then given runner_nodes_to_use else [runner_type])"

text \<open>
  The multinode branch. The concurrency values: the list when the point has a non-empty
  one, else the expansion of its range with \<^verbatim>\<open>args.step_size\<close>.
\<close>

definition full_sweep_conc_values :: "int \<Rightarrow> bmk_point \<Rightarrow> (error + int list) option" where
  "full_sweep_conc_values step bmk =
     (if given (b_conc_list bmk) \<noteq> [] then Some (Inr (given (b_conc_list bmk)))
      else range_of_point step bmk)"

text \<open>
  ``Apply min-conc filter if specified'' and ``Apply max-conc filter if specified'' of the
  multinode branch; \<open>None\<close> is \<^verbatim>\<open>continue\<close>, the point is skipped.
\<close>

definition min_conc_filter :: "int option \<Rightarrow> int list \<Rightarrow> int list option" where
  "min_conc_filter min_conc conc_values =
     (case min_conc of
        None \<Rightarrow> Some conc_values
      | Some mn \<Rightarrow>
          if mn \<le> 0 then None
          else if filter (\<lambda>c. c \<ge> mn) conc_values = [] then None
          else Some (filter (\<lambda>c. c \<ge> mn) conc_values))"

definition max_conc_filter :: "int option \<Rightarrow> int list \<Rightarrow> int list option" where
  "max_conc_filter max_conc conc_values =
     (case max_conc of
        None \<Rightarrow> Some conc_values
      | Some mx \<Rightarrow>
          (let filtered_conc = filter (\<lambda>c. c \<le> mx) conc_values in
           if filtered_conc = [] then (if mx > 0 then Some [mx] else None)
           else Some filtered_conc))"

definition full_sweep_multinode_point ::
  "(matrix_entry \<Rightarrow> bool \<Rightarrow> bool) \<Rightarrow> full_sweep_args \<Rightarrow> config_entry \<Rightarrow> string list option
     \<Rightarrow> int \<Rightarrow> int \<Rightarrow> bmk_point \<Rightarrow> (error + matrix_entry list) option" where
  "full_sweep_multinode_point schema_ok args val runner_nodes_to_use isl' osl' bmk =
     (if \<not> fs_multi_node args then Some (Inr [])
      else
        (case b_prefill bmk of
           None \<Rightarrow> Some (Inl (KeyError PREFILL))
         | Some prefill \<Rightarrow>
        (case b_decode bmk of
           None \<Rightarrow> Some (Inl (KeyError DECODE))
         | Some decode \<Rightarrow>
        (case full_sweep_conc_values (fs_step_size args) bmk of
           None \<Rightarrow> None
         | Some (Inl err) \<Rightarrow> Some (Inl err)
         | Some (Inr conc_values) \<Rightarrow>
        (case min_conc_filter (fs_min_conc args) conc_values of
           None \<Rightarrow> Some (Inr [])
         | Some at_least \<Rightarrow>
        (case max_conc_filter (fs_max_conc args) at_least of
           None \<Rightarrow> Some (Inr [])
         | Some kept \<Rightarrow>
             Some (validate_all schema_ok True
                     (map (multinode_entry val isl' osl' (get_spec_decoding bmk) prefill decode kept)
                          (runners_for_entry runner_nodes_to_use (c_runner val))))))))))"

text \<open>
  The single-node branch. The four filters, each \<open>None\<close> for \<^verbatim>\<open>continue\<close>:
  a non-positive bound skips the point, a TP or EP above its bound is replaced by the
  bound, and the concurrency range is narrowed.
\<close>

definition max_tp_filter :: "int option \<Rightarrow> int \<Rightarrow> int option" where
  "max_tp_filter max_tp tp =
     (case max_tp of
        None \<Rightarrow> Some tp
      | Some mt \<Rightarrow> if mt \<le> 0 then None else if tp > mt then Some mt else Some tp)"

definition max_ep_filter :: "int option \<Rightarrow> int option \<Rightarrow> int option option" where
  "max_ep_filter max_ep ep =
     (case max_ep of
        None \<Rightarrow> Some ep
      | Some me \<Rightarrow>
          if me \<le> 0 then None
          else (case ep of
                  None \<Rightarrow> Some None
                | Some x \<Rightarrow> if x > me then Some (Some me) else Some (Some x)))"

definition min_conc_narrow :: "int option \<Rightarrow> int \<times> int \<Rightarrow> (int \<times> int) option" where
  "min_conc_narrow min_conc r =
     (case r of (conc_start, conc_end) \<Rightarrow>
        (case min_conc of
           None \<Rightarrow> Some (conc_start, conc_end)
         | Some mn \<Rightarrow>
             if mn \<le> 0 then None
             else if conc_end < mn then None
             else Some (max conc_start mn, conc_end)))"

definition max_conc_narrow :: "int option \<Rightarrow> int \<times> int \<Rightarrow> (int \<times> int) option" where
  "max_conc_narrow max_conc r =
     (case r of (conc_start, conc_end) \<Rightarrow>
        (case max_conc of
           None \<Rightarrow> Some (conc_start, conc_end)
         | Some mx \<Rightarrow>
             if mx \<le> 0 then None
             else if conc_start > mx then Some (mx, mx)
             else Some (conc_start, min conc_end mx)))"

text \<open>
  The \<^verbatim>\<open>while\<close> loop of the single-node branch: the range loop again, but each value is
  turned at once into one validated entry per runner (\<open>emit conc\<close> are the entries of one
  value, in runner order), so a schema violation ends the loop.
\<close>

partial_function (option) single_node_loop ::
  "(matrix_entry \<Rightarrow> bool \<Rightarrow> bool) \<Rightarrow> (int \<Rightarrow> matrix_entry list) \<Rightarrow> int \<Rightarrow> int \<Rightarrow> int
     \<Rightarrow> matrix_entry list \<Rightarrow> (error + matrix_entry list) option" where
  "single_node_loop schema_ok emit conc conc_end step out =
     (if conc \<le> conc_end then
        (case validate_all schema_ok False (emit conc) of
           Inl err \<Rightarrow> Some (Inl err)
         | Inr entries \<Rightarrow>
             if conc = conc_end then Some (Inr (out @ entries))
             else single_node_loop schema_ok emit
                    (if conc * step > conc_end then conc_end else conc * step)
                    conc_end step (out @ entries))
      else Some (Inr out))"

definition full_sweep_single_node_point ::
  "(matrix_entry \<Rightarrow> bool \<Rightarrow> bool) \<Rightarrow> full_sweep_args \<Rightarrow> config_entry \<Rightarrow> string list option
     \<Rightarrow> int \<Rightarrow> int \<Rightarrow> bmk_point \<Rightarrow> (error + matrix_entry list) option" where
  "full_sweep_single_node_point schema_ok args val runner_nodes_to_use isl' osl' bmk =
     (case b_tp bmk of
        None \<Rightarrow> Some (Inl (KeyError TP))
      | Some tp \<Rightarrow>
     (case b_conc_start bmk of
        None \<Rightarrow> Some (Inl (KeyError CONC_START))
      | Some conc_start \<Rightarrow>
     (case b_conc_end bmk of
        None \<Rightarrow> Some (Inl (KeyError CONC_END))
      | Some conc_end \<Rightarrow>
     (case max_tp_filter (fs_max_tp args) tp of
        None \<Rightarrow> Some (Inr [])
      | Some tp1 \<Rightarrow>
     (case max_ep_filter (fs_max_ep args) (b_ep bmk) of
        None \<Rightarrow> Some (Inr [])
      | Some ep1 \<Rightarrow>
     (case min_conc_narrow (fs_min_conc args) (conc_start, conc_end) of
        None \<Rightarrow> Some (Inr [])
      | Some r1 \<Rightarrow>
     (case max_conc_narrow (fs_max_conc args) r1 of
        None \<Rightarrow> Some (Inr [])
      | Some (conc_start2, conc_end2) \<Rightarrow>
          single_node_loop schema_ok
            (\<lambda>conc. map (single_node_entry val isl' osl' tp1 ep1 (b_dp_attn bmk)
                            (get_spec_decoding bmk) conc)
                         (runners_for_entry runner_nodes_to_use (c_runner val)))
            conc_start2 conc_end2 (fs_step_size args) [])))))))"

text \<open>
  The body of \<^verbatim>\<open>for bmk in bmk_space\<close>: \<^verbatim>\<open>if is_multinode: ... elif args.single_node: ...\<close>.
\<close>

definition full_sweep_point ::
  "(matrix_entry \<Rightarrow> bool \<Rightarrow> bool) \<Rightarrow> full_sweep_args \<Rightarrow> config_entry \<Rightarrow> string list option
     \<Rightarrow> int \<Rightarrow> int \<Rightarrow> bmk_point \<Rightarrow> (error + matrix_entry list) option" where
  "full_sweep_point schema_ok args val runner_nodes_to_use isl' osl' bmk =
     (if get_flag (c_multinode val)
        then full_sweep_multinode_point schema_ok args val runner_nodes_to_use isl' osl' bmk
      else if fs_single_node args
        then full_sweep_single_node_point schema_ok args val runner_nodes_to_use isl' osl' bmk
      else Some (Inr []))"

text \<open>The body of \<^verbatim>\<open>for seq_config in seq_len_configs\<close>.\<close>

definition full_sweep_seq_config ::
  "(matrix_entry \<Rightarrow> bool \<Rightarrow> bool) \<Rightarrow> full_sweep_args \<Rightarrow> (int \<times> int) list \<Rightarrow> config_entry
     \<Rightarrow> string list option \<Rightarrow> seq_len_config \<Rightarrow> (error + matrix_entry list) option" where
  "full_sweep_seq_config schema_ok args seq_lens_filter val runner_nodes_to_use seq_config =
     (if seq_lens_filter \<noteq> [] \<and> (s_isl seq_config, s_osl seq_config) \<notin> set seq_lens_filter
        then Some (Inr [])
      else collect (full_sweep_point schema_ok args val runner_nodes_to_use
                      (s_isl seq_config) (s_osl seq_config))
                   (s_search_space seq_config))"

text \<open>
  The body of \<^verbatim>\<open>for key, val in all_config_data.items()\<close>: the four catalog filters, the
  runner nodes that contain \<^verbatim>\<open>args.runner_node_filter\<close>, then the sequence-length
  profiles.
\<close>

definition full_sweep_config ::
  "(matrix_entry \<Rightarrow> bool \<Rightarrow> bool) \<Rightarrow> full_sweep_args \<Rightarrow> runner_catalog \<Rightarrow> (int \<times> int) list
     \<Rightarrow> string \<times> config_entry \<Rightarrow> (error + matrix_entry list) option" where
  "full_sweep_config schema_ok args runner_data seq_lens_filter kv =
     (case kv of (key, val) \<Rightarrow>
        if given (fs_model_prefix args) \<noteq> []
           \<and> \<not> list_ex (\<lambda>p. prefix p key) (given (fs_model_prefix args))
          then Some (Inr [])
        else if given (fs_precision args) \<noteq> []
           \<and> c_precision val \<notin> set (given (fs_precision args))
          then Some (Inr [])
        else if given (fs_framework args) \<noteq> []
           \<and> c_framework val \<notin> set (given (fs_framework args))
          then Some (Inr [])
        else if given (fs_runner_type args) \<noteq> []
           \<and> c_runner val \<notin> set (given (fs_runner_type args))
          then Some (Inr [])
        else if given (fs_runner_node_filter args) \<noteq> [] then
          (let runner_nodes_to_use =
                 filter (sublist (given (fs_runner_node_filter args)))
                        (given (map_of runner_data (c_runner val)))
           in if runner_nodes_to_use = [] then Some (Inr [])
              else collect (full_sweep_seq_config schema_ok args seq_lens_filter val
                              (Some runner_nodes_to_use))
                           (c_seq_len_configs val))
        else collect (full_sweep_seq_config schema_ok args seq_lens_filter val None)
                     (c_seq_len_configs val))"

text \<open>\<^verbatim>\<open>{seq_len_stoi[sl] for sl in args.seq_lens}\<close>, as the list of its elements.\<close>

fun lookup_seq_lens :: "string list \<Rightarrow> error + (int \<times> int) list" where
  "lookup_seq_lens [] = Inr []"
| "lookup_seq_lens (sl # sls) =
     (case map_of seq_len_stoi sl of
        None \<Rightarrow> Inl (NameKeyError sl)
      | Some p \<Rightarrow> (case lookup_seq_lens sls of Inl err \<Rightarrow> Inl err | Inr ps \<Rightarrow> Inr (p # ps)))"

text \<open>
  The message of the runner-type check. It prints a Python set, whose order of elements
  is not fixed; here the invalid names come in the order of \<^verbatim>\<open>args.runner_type\<close>.
\<close>

definition invalid_runner_message :: "string list \<Rightarrow> string list \<Rightarrow> string" where
  "invalid_runner_message invalid_runners valid_runner_types =
     ''Invalid runner type(s): {''
       @ join '', '' (map (\<lambda>r. [CHR 0x27] @ r @ [CHR 0x27]) invalid_runners)
       @ ''}. Valid runner types are: '' @ join '', '' (sort valid_runner_types)"

definition generate_full_sweep ::
  "(matrix_entry \<Rightarrow> bool \<Rightarrow> bool) \<Rightarrow> full_sweep_args \<Rightarrow> catalog \<Rightarrow> runner_catalog
     \<Rightarrow> (error + matrix_entry list) option" where
  "generate_full_sweep schema_ok args all_config_data runner_data =
     (let invalid_runners =
            filter (\<lambda>r. r \<notin> set (map fst runner_data)) (remdups (given (fs_runner_type args)))
      in if invalid_runners \<noteq> []
           then Some (Inl (ValueError (invalid_runner_message invalid_runners (map fst runner_data))))
         else
           (case lookup_seq_lens (given (fs_seq_lens args)) of
              Inl err \<Rightarrow> Some (Inl err)
            | Inr seq_lens_filter \<Rightarrow>
                collect (full_sweep_config schema_ok args runner_data seq_lens_filter)
                        all_config_data))"

subsection \<open>\<^verbatim>\<open>generate_runner_model_sweep_config\<close>\<close>

record runner_model_args =
  rm_runner_type :: string
  rm_runner_config :: string
  rm_model_prefix :: "string list option"
  rm_precision :: "string list option"
  rm_framework :: "string list option"
  rm_conc :: "int option"
  rm_single_node :: bool
  rm_multi_node :: bool
  rm_runner_node_filter :: "string option"

definition quoted :: "string \<Rightarrow> string" where
  "quoted x = [CHR 0x27] @ x @ [CHR 0x27]"

text \<open>
  The head of the function: the nodes of the runner type, narrowed by the node filter;
  an unknown (or empty) runner type and a filter that matches nothing both raise.
\<close>

definition resolve_runner_nodes :: "runner_model_args \<Rightarrow> runner_catalog \<Rightarrow> error + string list" where
  "resolve_runner_nodes args runner_data =
     (let runner_nodes = given (map_of runner_data (rm_runner_type args)) in
      if runner_nodes = [] then
        Inl (ValueError
              (''Runner '' @ quoted (rm_runner_type args) @ '' does not exist in runner config ''
                 @ quoted (rm_runner_config args)
                 @ ''. Must choose from existing runner types: ''
                 @ quoted (join '', '' (map fst runner_data)) @ ''.''))
      else if given (rm_runner_node_filter args) \<noteq> [] then
        (if filter (sublist (given (rm_runner_node_filter args))) runner_nodes = [] then
           Inl (ValueError
                 (''No runner nodes found matching filter ''
                    @ quoted (given (rm_runner_node_filter args)) @ '' for runner type ''
                    @ quoted (rm_runner_type args) @ ''.''))
         else Inr (filter (sublist (given (rm_runner_node_filter args))) runner_nodes))
      else Inr runner_nodes)"

text \<open>
  The multinode branch: \<^verbatim>\<open>min(search_space, key=get_lowest_conc)\<close>, the first point with
  the least key, where the key of a point without a (non-empty) list is \<^verbatim>\<open>float('inf')\<close>,
  here \<open>None\<close>.
\<close>

definition get_lowest_conc :: "bmk_point \<Rightarrow> int option" where
  "get_lowest_conc search_space_entry =
     (if given (b_conc_list search_space_entry) \<noteq> []
        then Some (Min (set (given (b_conc_list search_space_entry))))
      else None)"

definition key_less :: "int option \<Rightarrow> int option \<Rightarrow> bool" where
  "key_less a b =
     (case a of None \<Rightarrow> False | Some x \<Rightarrow> (case b of None \<Rightarrow> True | Some y \<Rightarrow> x < y))"

fun min_by_from :: "bmk_point \<Rightarrow> bmk_point list \<Rightarrow> bmk_point" where
  "min_by_from best [] = best"
| "min_by_from best (x # xs) =
     min_by_from (if key_less (get_lowest_conc x) (get_lowest_conc best) then x else best) xs"

definition lowest_conc_point :: "bmk_point list \<Rightarrow> error + bmk_point" where
  "lowest_conc_point search_space =
     (case search_space of [] \<Rightarrow> Inl EmptySequence | x # xs \<Rightarrow> Inr (min_by_from x xs))"

definition multinode_conc_value :: "int option \<Rightarrow> bmk_point \<Rightarrow> int" where
  "multinode_conc_value override lowest_conc_entry =
     (case override of
        Some c \<Rightarrow> c
      | None \<Rightarrow>
          if given (b_conc_list lowest_conc_entry) \<noteq> []
            then Min (set (given (b_conc_list lowest_conc_entry)))
          else (case b_conc_start lowest_conc_entry of Some c \<Rightarrow> c | None \<Rightarrow> 1))"

definition copy_worker :: "worker \<Rightarrow> worker" where
  "copy_worker w =
     \<lparr>w_num_worker = w_num_worker w, w_tp = w_tp w, w_ep = w_ep w, w_dp_attn = w_dp_attn w,
      w_additional_settings = Some (given (w_additional_settings w))\<rparr>"

definition runner_model_multinode_entry ::
  "config_entry \<Rightarrow> string \<Rightarrow> worker \<Rightarrow> worker \<Rightarrow> int \<Rightarrow> string \<Rightarrow> matrix_entry" where
  "runner_model_multinode_entry val spec_decoding prefill_config decode_config conc_value node =
     \<lparr>e_image = c_image val, e_model = c_model val, e_model_prefix = c_model_prefix val,
      e_precision = c_precision val, e_framework = c_framework val, e_runner = node,
      e_isl = 1024, e_osl = 1024, e_tp = None, e_ep = None, e_dp_attn = None,
      e_spec_decoding = spec_decoding,
      e_prefill = Some (copy_worker prefill_config), e_decode = Some (copy_worker decode_config),
      e_conc = ConcList [conc_value], e_max_model_len = 2048,
      e_exp_name = c_model_prefix val @ ''_test'',
      e_disagg = get_flag (c_disagg val), e_run_eval = False\<rparr>"

definition runner_model_multinode ::
  "(matrix_entry \<Rightarrow> bool \<Rightarrow> bool) \<Rightarrow> runner_model_args \<Rightarrow> string list \<Rightarrow> config_entry
     \<Rightarrow> seq_len_config \<Rightarrow> error + matrix_entry list" where
  "runner_model_multinode schema_ok args runner_nodes val target_config =
     (case lowest_conc_point (s_search_space target_config) of
        Inl err \<Rightarrow> Inl err
      | Inr lowest_conc_entry \<Rightarrow>
     (case b_prefill lowest_conc_entry of
        None \<Rightarrow> Inl (KeyError PREFILL)
      | Some prefill_config \<Rightarrow>
     (case b_decode lowest_conc_entry of
        None \<Rightarrow> Inl (KeyError DECODE)
      | Some decode_config \<Rightarrow>
          validate_all schema_ok True
            (map (runner_model_multinode_entry val (get_spec_decoding lowest_conc_entry)
                    prefill_config decode_config
                    (multinode_conc_value (rm_conc args) lowest_conc_entry))
                 runner_nodes))))"

text \<open>
  The single-node branch: \<^verbatim>\<open>max(search_space, key=lambda x: x[Fields.TP.value])\<close>, the
  first point with the greatest TP; the key is computed for every point, in order, so a
  point without TP raises.
\<close>

fun max_tp_from :: "bmk_point \<times> int \<Rightarrow> bmk_point list \<Rightarrow> error + bmk_point \<times> int" where
  "max_tp_from best [] = Inr best"
| "max_tp_from best (x # xs) =
     (case b_tp x of
        None \<Rightarrow> Inl (KeyError TP)
      | Some t \<Rightarrow> max_tp_from (if t > snd best then (x, t) else best) xs)"

definition highest_tp_point :: "bmk_point list \<Rightarrow> error + bmk_point \<times> int" where
  "highest_tp_point search_space =
     (case search_space of
        [] \<Rightarrow> Inl EmptySequence
      | x # xs \<Rightarrow> (case b_tp x of None \<Rightarrow> Inl (KeyError TP) | Some t \<Rightarrow> max_tp_from (x, t) xs))"

text \<open>
  \<^verbatim>\<open>highest_tp_bmk.get(CONC_START) or min(highest_tp_bmk.get(CONC_LIST, [1]))\<close>: Python's
  \<^verbatim>\<open>or\<close> takes its right operand when the left one is \<^verbatim>\<open>None\<close> and also when it is \<open>0\<close>.
\<close>

definition single_node_conc_value :: "int option \<Rightarrow> bmk_point \<Rightarrow> error + int" where
  "single_node_conc_value override highest_tp_bmk =
     (case override of
        Some c \<Rightarrow> Inr c
      | None \<Rightarrow>
          (case b_conc_start highest_tp_bmk of
             Some c \<Rightarrow>
               if c \<noteq> 0 then Inr c
               else (case b_conc_list highest_tp_bmk of
                       None \<Rightarrow> Inr 1
                     | Some cl \<Rightarrow> if cl = [] then Inl EmptySequence else Inr (Min (set cl)))
           | None \<Rightarrow>
               (case b_conc_list highest_tp_bmk of
                  None \<Rightarrow> Inr 1
                | Some cl \<Rightarrow> if cl = [] then Inl EmptySequence else Inr (Min (set cl)))))"

definition runner_model_single_node_entry ::
  "config_entry \<Rightarrow> int \<Rightarrow> int option \<Rightarrow> bool option \<Rightarrow> string \<Rightarrow> int \<Rightarrow> string \<Rightarrow> matrix_entry" where
  "runner_model_single_node_entry val highest_tp ep dp_attn spec_decoding conc_value node =
     \<lparr>e_image = c_image val, e_model = c_model val, e_model_prefix = c_model_prefix val,
      e_precision = c_precision val, e_framework = c_framework val, e_runner = node,
      e_isl = 1024, e_osl = 1024, e_tp = Some highest_tp,
      e_ep = Some (case ep of None \<Rightarrow> 1 | Some x \<Rightarrow> x),
      e_dp_attn = Some (case dp_attn of None \<Rightarrow> False | Some x \<Rightarrow> x),
      e_spec_decoding = spec_decoding, e_prefill = None, e_decode = None,
      e_conc = Scalar conc_value, e_max_model_len = 2048,
      e_exp_name = c_model_prefix val @ ''_test'',
      e_disagg = get_flag (c_disagg val), e_run_eval = False\<rparr>"

definition runner_model_single_node ::
  "(matrix_entry \<Rightarrow> bool \<Rightarrow> bool) \<Rightarrow> runner_model_args \<Rightarrow> string list \<Rightarrow> config_entry
     \<Rightarrow> seq_len_config \<Rightarrow> error + matrix_entry list" where
  "runner_model_single_node schema_ok args runner_nodes val target_config =
     (case highest_tp_point (s_search_space target_config) of
        Inl err \<Rightarrow> Inl err
      | Inr (highest_tp_bmk, highest_tp) \<Rightarrow>
     (case single_node_conc_value (rm_conc args) highest_tp_bmk of
        Inl err \<Rightarrow> Inl err
      | Inr conc_value \<Rightarrow>
          validate_all schema_ok False
            (map (runner_model_single_node_entry val highest_tp (b_ep highest_tp_bmk)
                    (b_dp_attn highest_tp_bmk) (get_spec_decoding highest_tp_bmk) conc_value)
                 runner_nodes)))"

text \<open>The body of the loop over the catalog.\<close>

definition runner_model_config ::
  "(matrix_entry \<Rightarrow> bool \<Rightarrow> bool) \<Rightarrow> runner_model_args \<Rightarrow> string list
     \<Rightarrow> string \<times> config_entry \<Rightarrow> error + matrix_entry list" where
  "runner_model_config schema_ok args runner_nodes kv =
     (case kv of (key, val) \<Rightarrow>
        if c_runner val \<noteq> rm_runner_type args then Inr []
        else if given (rm_model_prefix args) \<noteq> []
           \<and> \<not> list_ex (\<lambda>p. prefix p key) (given (rm_model_prefix args))
          then Inr []
        else if given (rm_precision args) \<noteq> []
           \<and> c_precision val \<notin> set (given (rm_precision args))
          then Inr []
        else if given (rm_framework args) \<noteq> []
           \<and> c_framework val \<notin> set (given (rm_framework args))
          then Inr []
        else if rm_single_node args \<and> get_flag (c_multinode val) then Inr []
        else if rm_multi_node args \<and> \<not> get_flag (c_multinode val) then Inr []
        else
          (case find (\<lambda>config. s_isl config = 1024 \<and> s_osl config = 1024)
                     (c_seq_len_configs val) of
             None \<Rightarrow> Inr []
           | Some target_config \<Rightarrow>
               if get_flag (c_multinode val)
                 then runner_model_multinode schema_ok args runner_nodes val target_config
               else runner_model_single_node schema_ok args runner_nodes val target_config))"

definition generate_runner_model_sweep_config ::
  "(matrix_entry \<Rightarrow> bool \<Rightarrow> bool) \<Rightarrow> runner_model_args \<Rightarrow> catalog \<Rightarrow> runner_catalog
     \<Rightarrow> error + matrix_entry list" where
  "generate_runner_model_sweep_config schema_ok args all_config_data runner_data =
     (case resolve_runner_nodes args runner_data of
        Inl err \<Rightarrow> Inl err
      | Inr runner_nodes \<Rightarrow>
          collect_err (runner_model_config schema_ok args runner_nodes) all_config_data)"

subsection \<open>\<^verbatim>\<open>generate_test_config_sweep\<close>\<close>

record test_config_args =
  tc_config_keys :: "string list"
  tc_conc :: "int list option"

text \<open>
  The concurrency values of a point: its list when the key is there (even if the list is
  empty), else the expansion of its range with the fixed step \<open>2\<close>.
\<close>

definition test_config_conc_values :: "bmk_point \<Rightarrow> (error + int list) option" where
  "test_config_conc_values bmk =
     (case b_conc_list bmk of
        Some conc_list \<Rightarrow> Some (Inr conc_list)
      | None \<Rightarrow> range_of_point 2 bmk)"

text \<open>
  ``Apply --conc filter if provided'': \<open>None\<close> is \<^verbatim>\<open>continue\<close>.
\<close>

definition conc_allow_list :: "int list option \<Rightarrow> int list \<Rightarrow> int list option" where
  "conc_allow_list allowed conc_values =
     (if given allowed \<noteq> [] then
        (if filter (\<lambda>c. c \<in> set (given allowed)) conc_values = [] then None
         else Some (filter (\<lambda>c. c \<in> set (given allowed)) conc_values))
      else Some conc_values)"

definition test_config_multinode_point ::
  "(matrix_entry \<Rightarrow> bool \<Rightarrow> bool) \<Rightarrow> test_config_args \<Rightarrow> config_entry \<Rightarrow> int \<Rightarrow> int
     \<Rightarrow> bmk_point \<Rightarrow> (error + matrix_entry list) option" where
  "test_config_multinode_point schema_ok args val isl' osl' bmk =
     (case b_prefill bmk of
        None \<Rightarrow> Some (Inl (KeyError PREFILL))
      | Some prefill \<Rightarrow>
     (case b_decode bmk of
        None \<Rightarrow> Some (Inl (KeyError DECODE))
      | Some decode \<Rightarrow>
     (case test_config_conc_values bmk of
        None \<Rightarrow> None
      | Some (Inl err) \<Rightarrow> Some (Inl err)
      | Some (Inr conc_values) \<Rightarrow>
     (case conc_allow_list (tc_conc args) conc_values of
        None \<Rightarrow> Some (Inr [])
      | Some kept \<Rightarrow>
          Some (validate_all schema_ok True
                  [multinode_entry val isl' osl' (get_spec_decoding bmk) prefill decode kept
                     (c_runner val)])))))"

definition test_config_single_node_point ::
  "(matrix_entry \<Rightarrow> bool \<Rightarrow> bool) \<Rightarrow> test_config_args \<Rightarrow> config_entry \<Rightarrow> int \<Rightarrow> int
     \<Rightarrow> bmk_point \<Rightarrow> (error + matrix_entry list) option" where
  "test_config_single_node_point schema_ok args val isl' osl' bmk =
     (case b_tp bmk of
        None \<Rightarrow> Some (Inl (KeyError TP))
      | Some tp \<Rightarrow>
     (case test_config_conc_values bmk of
        None \<Rightarrow> None
      | Some (Inl err) \<Rightarrow> Some (Inl err)
      | Some (Inr conc_values) \<Rightarrow>
     (case conc_allow_list (tc_conc args) conc_values of
        None \<Rightarrow> Some (Inr [])
      | Some kept \<Rightarrow>
          Some (validate_all schema_ok False
                  (map (\<lambda>conc. single_node_entry val isl' osl' tp (b_ep bmk) (b_dp_attn bmk)
                                  (get_spec_decoding bmk) conc (c_runner val))
                       kept)))))"

definition test_config_point ::
  "(matrix_entry \<Rightarrow> bool \<Rightarrow> bool) \<Rightarrow> test_config_args \<Rightarrow> config_entry \<Rightarrow> int \<Rightarrow> int
     \<Rightarrow> bmk_point \<Rightarrow> (error + matrix_entry list) option" where
  "test_config_point schema_ok args val isl' osl' bmk =
     (if get_flag (c_multinode val)
        then test_config_multinode_point schema_ok args val isl' osl' bmk
      else test_config_single_node_point schema_ok args val isl' osl' bmk)"

definition test_config_seq_len ::
  "(matrix_entry \<Rightarrow> bool \<Rightarrow> bool) \<Rightarrow> test_config_args \<Rightarrow> config_entry \<Rightarrow> seq_len_config
     \<Rightarrow> (error + matrix_entry list) option" where
  "test_config_seq_len schema_ok args val seq_len_config =
     collect (test_config_point schema_ok args val (s_isl seq_len_config) (s_osl seq_len_config))
             (s_search_space seq_len_config)"

text \<open>The body of \<^verbatim>\<open>for key in args.config_keys\<close>, with \<^verbatim>\<open>val = all_config_data[key]\<close>.\<close>

definition test_config_key ::
  "(matrix_entry \<Rightarrow> bool \<Rightarrow> bool) \<Rightarrow> test_config_args \<Rightarrow> catalog \<Rightarrow> string
     \<Rightarrow> (error + matrix_entry list) option" where
  "test_config_key schema_ok args all_config_data key =
     (case map_of all_config_data key of
        None \<Rightarrow> Some (Inl (NameKeyError key))
      | Some val \<Rightarrow> collect (test_config_seq_len schema_ok args val) (c_seq_len_configs val))"

definition missing_keys_message :: "string list \<Rightarrow> string list \<Rightarrow> string" where
  "missing_keys_message missing_keys available_keys =
     ''Config key(s) not found: '' @ join '', '' missing_keys @ ''.'' @ [CHR 0x0A]
       @ ''Available keys: '' @ join '', '' available_keys"

definition generate_test_config_sweep ::
  "(matrix_entry \<Rightarrow> bool \<Rightarrow> bool) \<Rightarrow> test_config_args \<Rightarrow> catalog
     \<Rightarrow> (error + matrix_entry list) option" where
  "generate_test_config_sweep schema_ok args all_config_data =
     (let missing_keys = filter (\<lambda>key. key \<notin> set (map fst all_config_data)) (tc_config_keys args)
      in if missing_keys \<noteq> []
           then Some (Inl (ValueError
                        (missing_keys_message missing_keys (sort (map fst all_config_data)))))
         else collect (test_config_key schema_ok args all_config_data) (tc_config_keys args))"

subsection \<open>Bounds and examples for the statements\<close>

text \<open>A value under an optional upper bound: the bound replaces a larger value.\<close>

definition clamp_to :: "int option \<Rightarrow> int \<Rightarrow> int" where
  "clamp_to bound x = (case bound of None \<Rightarrow> x | Some b \<Rightarrow> if x > b then b else x)"

text \<open>A schema that every entry passes, and the pieces of a small catalog.\<close>

definition accept_all :: "matrix_entry \<Rightarrow> bool \<Rightarrow> bool" where
  "accept_all entry is_multinode = True"

definition example_worker :: worker where
  "example_worker =
     \<lparr>w_num_worker = 1, w_tp = 4, w_ep = 1, w_dp_attn = False, w_additional_settings = None\<rparr>"

definition example_args :: full_sweep_args where
  "example_args =
     \<lparr>fs_model_prefix = None, fs_precision = None, fs_framework = None, fs_runner_type = None,
      fs_seq_lens = None, fs_step_size = 2, fs_min_conc = None, fs_max_conc = None,
      fs_max_tp = None, fs_max_ep = None, fs_single_node = True, fs_multi_node = False,
      fs_runner_node_filter = None\<rparr>"

definition example_multi_args :: full_sweep_args where
  "example_multi_args = example_args\<lparr>fs_single_node := False, fs_multi_node := True\<rparr>"

definition example_config :: "bool \<Rightarrow> seq_len_config list \<Rightarrow> config_entry" where
  "example_config multinode profiles =
     \<lparr>c_image = ''img'', c_model = ''deepseek-r1'', c_model_prefix = ''dsr1'',
      c_precision = ''fp8'', c_framework = ''sglang'', c_runner = ''h200'',
      c_multinode = Some multinode, c_disagg = None, c_seq_len_configs = profiles\<rparr>"

definition range_point :: "int \<Rightarrow> int \<Rightarrow> int \<Rightarrow> bmk_point" where
  "range_point t conc_start conc_end =
     \<lparr>b_tp = Some t, b_ep = None, b_dp_attn = None, b_spec_decoding = None,
      b_conc_start = Some conc_start, b_conc_end = Some conc_end, b_conc_list = None,
      b_prefill = None, b_decode = None\<rparr>"

definition list_point :: "int list \<Rightarrow> bmk_point" where
  "list_point conc_list =
     \<lparr>b_tp = None, b_ep = None, b_dp_attn = None, b_spec_decoding = None,
      b_conc_start = None, b_conc_end = None, b_conc_list = Some conc_list,
      b_prefill = Some example_worker, b_decode = Some example_worker\<rparr>"





definition example_profile :: seq_len_config where
  "example_profile =
     \<lparr>s_isl = 1024, s_osl = 1024,
      s_search_space = [range_point 1 4 8, range_point 2 4 8, range_point 4 4 8]\<rparr>"

definition example_catalog :: catalog where
  "example_catalog =
     [(''dsr1-fp8-h200-sglang'', example_config False [example_profile]),
      (''dsr1-fp8-h200-dynamo'',
        example_config True [\<lparr>s_isl = 1024, s_osl = 8192, s_search_space = [list_point [8, 16]]\<rparr>])]"

definition example_runners :: runner_catalog where
  "example_runners = [(''h200'', [''h200-n0'', ''h200-n1''])]"

definition example_rm_args :: runner_model_args where
  "example_rm_args =
     \<lparr>rm_runner_type = ''h200'', rm_runner_config = ''runners.yaml'', rm_model_prefix = None,
      rm_precision = None, rm_framework = None, rm_conc = None, rm_single_node = True,
      rm_multi_node = False, rm_runner_node_filter = None\<rparr>"

definition example_rm_entry :: "string \<Rightarrow> matrix_entry" where
  "example_rm_entry node =
     runner_model_single_node_entry (example_config False [example_profile]) 4 None None ''none'' 4 node"

definition example_full_entry :: "int \<Rightarrow> int \<Rightarrow> matrix_entry" where
  "example_full_entry t c =
     single_node_entry (example_config False [example_profile]) 1024 1024 t None None ''none'' c ''h200''"

definition example_multi_entry :: matrix_entry where
  "example_multi_entry =
     multinode_entry (example_config True [\<lparr>s_isl = 1024, s_osl = 8192, s_search_space = [list_point [8, 16]]\<rparr>])
       1024 8192 ''none'' example_worker example_worker [8, 16] ''h200''"

text \<open>A test-config request with one key of the example catalog and one unknown key.\<close>

definition example_tc_args :: test_config_args where
  "example_tc_args = \<lparr>tc_config_keys = [''dsr1-fp8-h200-sglang'', ''no-such-key''], tc_conc = None\<rparr>"

text \<open>
  For runner-model-sweep, in the words of the specification: a point whose TP is below
  (at most) a value; the concurrency that a point resolves to (the override, else the
  range start when there is one and it is not \<open>0\<close>, else the minimum of the explicit list,
  else \<open>1\<close>); and a config that the single-node mode selects (its runner is the requested
  type, it passes the optional filters and it is not multinode).
\<close>

definition tp_below :: "int \<Rightarrow> bmk_point \<Rightarrow> bool" where
  "tp_below t x = (case b_tp x of None \<Rightarrow> False | Some u \<Rightarrow> u < t)"

definition tp_at_most :: "int \<Rightarrow> bmk_point \<Rightarrow> bool" where
  "tp_at_most t x = (case b_tp x of None \<Rightarrow> False | Some u \<Rightarrow> u \<le> t)"





section \<open>Properties\<close>

subsection \<open>Validation\<close>

lemma validate_all_Inr: "validate_all schema_ok b es = Inr out \<Longrightarrow> out = es"
  by (induction es arbitrary: out)
     (auto simp: validate_matrix_entry_def split: sum.splits if_splits)

lemma validate_all_ok: "\<forall>e\<in>set es. schema_ok e b \<Longrightarrow> validate_all schema_ok b es = Inr es"
  by (induction es) (auto simp: validate_matrix_entry_def)

lemma validate_all_error: "validate_all schema_ok b es = Inl err \<Longrightarrow> err = SchemaViolation"
  by (induction es arbitrary: err)
     (auto simp: validate_matrix_entry_def split: sum.splits if_splits)

subsection \<open>The range loop\<close>

lemma sorted_wrt_less_hd_le:
  "sorted_wrt (<) ys \<Longrightarrow> ys \<noteq> [] \<Longrightarrow> y \<in> set ys \<Longrightarrow> hd ys \<le> (y::int)"
  by (cases ys) auto

lemma conc_loop_positive:
  "0 < conc \<Longrightarrow> conc \<le> conc_end \<Longrightarrow> 1 < step \<Longrightarrow>
   \<exists>ys. conc_loop conc conc_end step acc = Some (acc @ ys) \<and> ys \<noteq> [] \<and> hd ys = conc
        \<and> last ys = conc_end \<and> sorted_wrt (<) ys"
proof (induction "nat (conc_end - conc)" arbitrary: conc acc rule: less_induct)
  case less
  show ?case
  proof (cases "conc = conc_end")
    case True
    then show ?thesis
      by (subst conc_loop.simps) simp
  next
    case False
    define c' where "c' = (if conc * step > conc_end then conc_end else conc * step)"
    have lt: "conc < conc_end" using False less.prems by simp
    have "conc * 2 \<le> conc * step"
      using less.prems by (intro mult_left_mono) auto
    then have grow: "conc < conc * step" using less.prems by linarith
    have c'_gt: "conc < c'" and c'_le: "c' \<le> conc_end"
      using lt grow by (auto simp: c'_def)
    have "nat (conc_end - c') < nat (conc_end - conc)"
      using c'_gt c'_le by linarith
    moreover have "0 < c'" using c'_gt less.prems by linarith
    ultimately obtain ys where
      ys: "conc_loop c' conc_end step (acc @ [conc]) = Some ((acc @ [conc]) @ ys)"
          "ys \<noteq> []" "hd ys = c'" "last ys = conc_end" "sorted_wrt (<) ys"
      using less.hyps [of c' "acc @ [conc]"] c'_le less.prems by blast
    have unfold: "conc_loop conc conc_end step acc = conc_loop c' conc_end step (acc @ [conc])"
      using lt by (subst conc_loop.simps) (simp add: c'_def)
    have "\<forall>y\<in>set ys. conc < y"
      using sorted_wrt_less_hd_le [OF ys(5) ys(2)] ys(3) c'_gt by fastforce
    then have "sorted_wrt (<) (conc # ys)" using ys(5) by simp
    then show ?thesis
      using unfold ys by (intro exI [of _ "conc # ys"]) simp
  qed
qed

lemma conc_loop_nonpositive:
  assumes "conc_loop conc conc_end step acc = Some ys"
  shows "\<not> (conc \<le> 0 \<and> conc < conc_end \<and> 1 < step)"
proof (rule conc_loop.raw_induct
    [where P = "\<lambda>c e s a y. \<not> (c \<le> 0 \<and> c < e \<and> 1 < s)", OF _ assms])
  fix loop :: "int \<Rightarrow> int \<Rightarrow> int \<Rightarrow> int list \<Rightarrow> int list option"
  fix c e s :: int and a y :: "int list"
  assume IH: "\<And>c e s a y. loop c e s a = Some y \<Longrightarrow> \<not> (c \<le> 0 \<and> c < e \<and> 1 < s)"
  assume body: "(if c \<le> e then
                   if c = e then Some (a @ [c])
                   else loop (if e < c * s then e else c * s) e s (a @ [c])
                 else Some a) = Some y"
  show "\<not> (c \<le> 0 \<and> c < e \<and> 1 < s)"
  proof
    assume h: "c \<le> 0 \<and> c < e \<and> 1 < s"
    then have "c * s \<le> c * 1"
      by (intro mult_left_mono_neg) auto
    then have le: "c * s \<le> c" by simp
    then have "loop (c * s) e s (a @ [c]) = Some y"
      using h body by (simp split: if_splits)
    then have "\<not> (c * s \<le> 0 \<and> c * s < e \<and> 1 < s)"
      by (rule IH)
    then show False using h le by linarith
  qed
qed

lemma single_node_loop_positive:
  assumes "0 < conc" and "conc \<le> conc_end" and "1 < step" and ok: "\<forall>entry. schema_ok entry False"
  shows "\<exists>ys. conc_loop conc conc_end step acc = Some (acc @ ys)
            \<and> single_node_loop schema_ok emit conc conc_end step out
                = Some (Inr (out @ concat (map emit ys)))"
  using assms(1,2,3)
proof (induction "nat (conc_end - conc)" arbitrary: conc acc out rule: less_induct)
  case less
  have v: "validate_all schema_ok False (emit c) = Inr (emit c)" for c
    using ok by (simp add: validate_all_ok)
  show ?case
  proof (cases "conc = conc_end")
    case True
    have "conc_loop conc conc_end step acc = Some (acc @ [conc])"
      using True by (subst conc_loop.simps) simp
    moreover have "single_node_loop schema_ok emit conc conc_end step out
        = Some (Inr (out @ concat (map emit [conc])))"
      using True by (subst single_node_loop.simps) (simp add: v)
    ultimately show ?thesis by blast
  next
    case False
    define c' where "c' = (if conc * step > conc_end then conc_end else conc * step)"
    have lt: "conc < conc_end" using False less.prems by simp
    have "conc * 2 \<le> conc * step"
      using less.prems by (intro mult_left_mono) auto
    then have grow: "conc < conc * step" using less.prems by linarith
    have c'_gt: "conc < c'" and c'_le: "c' \<le> conc_end"
      using lt grow by (auto simp: c'_def)
    have m: "nat (conc_end - c') < nat (conc_end - conc)"
      using c'_gt c'_le by linarith
    have pos: "0 < c'" using c'_gt less.prems by linarith
    from less.hyps [OF m pos c'_le less.prems(3), of "acc @ [conc]" "out @ emit conc"]
    obtain ys where
      ys: "conc_loop c' conc_end step (acc @ [conc]) = Some ((acc @ [conc]) @ ys)"
          "single_node_loop schema_ok emit c' conc_end step (out @ emit conc)
             = Some (Inr ((out @ emit conc) @ concat (map emit ys)))"
      by blast
    have u1: "conc_loop conc conc_end step acc = conc_loop c' conc_end step (acc @ [conc])"
      using lt by (subst conc_loop.simps) (simp add: c'_def)
    have u2: "single_node_loop schema_ok emit conc conc_end step out
        = single_node_loop schema_ok emit c' conc_end step (out @ emit conc)"
      using lt by (subst single_node_loop.simps) (simp add: c'_def v)
    show ?thesis
      using u1 u2 ys by (intro exI [of _ "conc # ys"]) simp
  qed
qed

text \<open>
  C1 (as the code has it). For every \<open>start \<le> end\<close> and \<open>step > 1\<close> with a positive
  \<open>start\<close> (or \<open>start = end\<close>), the range expansion returns, and what it returns is a
  non-empty strictly increasing sequence (so in particular strictly increasing except
  possibly for a repeated final value) whose last element is \<open>end\<close>; the loop of the
  single-node branch of full-sweep, under a schema that accepts the entries, emits the
  entries of exactly these values, in this order; the expansion of \<open>(1, 100, 2)\<close> is
  \<open>[1, 2, 4, 8, 16, 32, 64, 100]\<close>.
\<close>

theorem conc_range_increasing:
  "(start \<le> end \<and> 1 < step \<and> (0 < start \<or> start = end) \<longrightarrow>
      (\<exists>ys. conc_range start end step = Some ys \<and> ys \<noteq> [] \<and> sorted_wrt (<) ys
            \<and> last ys = end
            \<and> (\<forall>schema_ok emit. (\<forall>entry. schema_ok entry False) \<longrightarrow>
                  single_node_loop schema_ok emit start end step []
                    = Some (Inr (concat (map emit ys))))))
   \<and> conc_range 1 100 2 = Some [1, 2, 4, 8, 16, 32, 64, 100]"
proof (intro conjI impI)
  assume a: "start \<le> end \<and> 1 < step \<and> (0 < start \<or> start = end)"
  show "\<exists>ys. conc_range start end step = Some ys \<and> ys \<noteq> [] \<and> sorted_wrt (<) ys \<and> last ys = end
            \<and> (\<forall>schema_ok emit. (\<forall>entry. schema_ok entry False) \<longrightarrow>
                  single_node_loop schema_ok emit start end step []
                    = Some (Inr (concat (map emit ys))))"
  proof (cases "start = end")
    case True
    have 1: "conc_range start end step = Some [end]"
      using True unfolding conc_range_def by (subst conc_loop.simps) simp
    have 2: "single_node_loop schema_ok emit start end step [] = Some (Inr (concat (map emit [end])))"
      if "\<forall>entry. schema_ok entry False" for schema_ok emit
      using True that by (subst single_node_loop.simps) (simp add: validate_all_ok)
    from 1 2 show ?thesis by simp
  next
    case False
    then have pos: "0 < start" and le: "start \<le> end" and st: "1 < step" using a by simp_all
    from conc_loop_positive [OF pos le st, of "[]"] obtain ys where
      ys: "conc_loop start end step [] = Some ys" "ys \<noteq> []" "sorted_wrt (<) ys" "last ys = end"
      by auto
    have "single_node_loop schema_ok emit start end step [] = Some (Inr (concat (map emit ys)))"
      if ok: "\<forall>entry. schema_ok entry False" for schema_ok emit
      using single_node_loop_positive [where schema_ok = schema_ok and emit = emit
          and acc = "[]" and out = "[]", OF pos le st ok] ys(1) by simp
    with ys show ?thesis unfolding conc_range_def by blast
  qed
next
  show "conc_range 1 100 2 = Some [1, 2, 4, 8, 16, 32, 64, 100]"
    unfolding conc_range_def by (simp add: conc_loop.simps)
qed

theorem conc_range_increasing_witness:
  "(3::int) \<le> 20 \<and> (1::int) < 3 \<and> conc_range 3 20 3 = Some [3, 9, 20]
   \<and> sorted_wrt (<) [3, 9, 20::int] \<and> last [3, 9, 20::int] = 20
   \<and> single_node_loop accept_all (\<lambda>c. [synthetic_entry 8 c]) 3 20 3 []
       = Some (Inr [synthetic_entry 8 3, synthetic_entry 8 9, synthetic_entry 8 20])"
proof -
  have r: "conc_range 3 20 3 = Some [3, 9, 20]"
    unfolding conc_range_def by (simp add: conc_loop.simps)
  from conc_range_increasing [of 3 20 3] r
  have "\<forall>schema_ok emit. (\<forall>entry. schema_ok entry False) \<longrightarrow>
          single_node_loop schema_ok emit 3 20 3 [] = Some (Inr (concat (map emit [3, 9, 20])))"
    by simp
  then have "single_node_loop accept_all (\<lambda>c. [synthetic_entry 8 c]) 3 20 3 []
       = Some (Inr (concat (map (\<lambda>c. [synthetic_entry 8 c]) [3, 9, 20])))"
    by (simp add: accept_all_def)
  with r show ?thesis by simp
qed

text \<open>
  With \<open>start = 0 < end\<close> the product \<open>conc * step\<close> stays \<open>0\<close>: the loop appends \<open>0\<close>
  for ever and the expansion of \<open>(0, 5, 2)\<close> never returns.
\<close>

theorem conc_range_zero_start_diverges:
  "conc_range 0 5 2 = None"
proof (cases "conc_range 0 5 2")
  case None
  then show ?thesis .
next
  case (Some ys)
  then show ?thesis
    unfolding conc_range_def using conc_loop_nonpositive [of 0 5 2 "[]" ys] by simp
qed

subsection \<open>Eval selection\<close>

lemma conc_le_refl: "conc_le c c"
  by (cases c) auto

lemma conc_le_trans: "conc_le a b \<Longrightarrow> conc_le b c \<Longrightarrow> conc_le a c"
  by (cases a; cases b; cases c) auto

lemma conc_le_antisym: "conc_le a b \<Longrightarrow> conc_le b a \<Longrightarrow> a = b"
  by (cases a; cases b) auto

lemma conc_gt_Inr: "conc_gt c mx = Inr b \<Longrightarrow> conc_le mx (if b then c else mx) \<and> conc_le c (if b then c else mx)"
  by (cases c; cases mx) (auto simp: conc_le_refl)

lemma max_from_Inr:
  "max_from mx cs = Inr r \<Longrightarrow> r \<in> set (mx # cs) \<and> (\<forall>d\<in>set (mx # cs). conc_le d r)"
proof (induction cs arbitrary: mx)
  case Nil
  then show ?case by (simp add: conc_le_refl)
next
  case (Cons c cs)
  from Cons.prems obtain b where b: "conc_gt c mx = Inr b"
    and rest: "max_from (if b then c else mx) cs = Inr r"
    by (auto split: sum.splits)
  from Cons.IH [OF rest] have r: "r \<in> set ((if b then c else mx) # cs)"
    and le: "\<forall>d\<in>set ((if b then c else mx) # cs). conc_le d r" by auto
  from le have new: "conc_le (if b then c else mx) r" by simp
  from conc_gt_Inr [OF b] new have "conc_le mx r" "conc_le c r"
    by (blast intro: conc_le_trans)+
  with r le show ?case by (auto split: if_splits)
qed

lemma py_max_Inr: "py_max cs = Inr r \<Longrightarrow> is_max_conc r cs"
  by (cases cs) (auto simp: is_max_conc_def list_all_iff dest: max_from_Inr)

lemma is_max_conc_unique: "is_max_conc c cs \<Longrightarrow> is_max_conc r cs \<Longrightarrow> c = r"
  by (auto simp: is_max_conc_def list_all_iff intro: conc_le_antisym)

lemma max_conc_indices_Inr:
  assumes "max_conc_indices es = Inr S"
  shows "i \<in> S \<longleftrightarrow> (\<exists>e. (i, e) \<in> set es \<and> is_max_conc (e_conc e) (map e_conc (map snd es)))"
proof (cases "es = []")
  case True
  with assms show ?thesis by (simp add: max_conc_indices_def)
next
  case False
  have cs: "map (\<lambda>(i, e). e_conc e) es = map e_conc (map snd es)"
    by (simp add: case_prod_unfold)
  from assms False obtain r where r: "py_max (map e_conc (map snd es)) = Inr r"
    and S: "S = set (map fst (filter (\<lambda>(i, e). e_conc e = r) es))"
    by (auto simp: max_conc_indices_def cs split: sum.splits)
  have "\<And>c. c = r \<longleftrightarrow> is_max_conc c (map e_conc (map snd es))"
    using py_max_Inr [OF r] is_max_conc_unique by blast
  then show ?thesis unfolding S by force
qed

lemma get_tps_Inr: "get_tps es = Inr ts \<Longrightarrow> map e_tp (map snd es) = map Some ts"
  by (induction es arbitrary: ts rule: get_tps.induct)
     (auto simp: get_tp_def split: sum.splits option.splits)

lemma map_filter_map_Some: "map f xs = map Some ts \<Longrightarrow> List.map_filter f xs = ts"
  by (induction xs arbitrary: ts) (auto simp: List.map_filter_simps)

lemma filter_snd: "filter (\<lambda>(i, e). P e) es = filter (\<lambda>x. P (snd x)) es"
  by (simp add: case_prod_unfold)

lemma group_indices_Inr:
  assumes "group_indices es = Inr S"
  shows "i \<in> S \<longleftrightarrow> (\<exists>e. (i, e) \<in> set es \<and> group_selected (map snd es) e)"
proof (cases "es = []")
  case True
  with assms show ?thesis by (simp add: group_indices_def)
next
  case False
  define g where "g = map snd es"
  from assms False obtain ts where ts: "get_tps es = Inr ts"
    by (auto simp: group_indices_def split: sum.splits)
  have tps: "List.map_filter e_tp g = ts"
    unfolding g_def using get_tps_Inr [OF ts] by (rule map_filter_map_Some)
  define mx where "mx = Max (set ts)"
  define mn where "mn = Min (set ts)"
  have at: "\<And>t. map e_conc (map snd (filter (\<lambda>(i, e). e_tp e = Some t) es)) = concs_at_tp g t"
    by (simp add: concs_at_tp_def g_def filter_snd filter_map comp_def)
  from assms False ts obtain H where H: "max_conc_indices (filter (\<lambda>(i, e). e_tp e = Some mx) es) = Inr H"
    by (auto simp: group_indices_def Let_def mx_def split: sum.splits)
  have inH: "\<And>i. i \<in> H \<longleftrightarrow> (\<exists>e. (i, e) \<in> set es \<and> e_tp e = Some mx \<and> is_max_conc (e_conc e) (concs_at_tp g mx))"
    using max_conc_indices_Inr [OF H, unfolded at] by auto
  show ?thesis
  proof (cases "mn = mx")
    case True
    with assms False ts H have "S = H"
      by (auto simp: group_indices_def Let_def mx_def mn_def split: sum.splits)
    then show ?thesis
      using inH True by (auto simp: group_selected_def Let_def tps g_def[symmetric] mx_def[symmetric] mn_def[symmetric])
  next
    case neq: False
    with assms False ts H obtain L where L: "max_conc_indices (filter (\<lambda>(i, e). e_tp e = Some mn) es) = Inr L"
      and S: "S = H \<union> L"
      by (auto simp: group_indices_def Let_def mx_def mn_def split: sum.splits)
    have inL: "\<And>i. i \<in> L \<longleftrightarrow> (\<exists>e. (i, e) \<in> set es \<and> e_tp e = Some mn \<and> is_max_conc (e_conc e) (concs_at_tp g mn))"
      using max_conc_indices_Inr [OF L, unfolded at] by auto
    show ?thesis
      unfolding S using inH inL neq
      by (auto simp: group_selected_def Let_def tps g_def[symmetric] mx_def[symmetric] mn_def[symmetric])
  qed
qed

lemma groups_append_keys:
  "map fst (groups_append k x gs) = (if k \<in> fst ` set gs then map fst gs else map fst gs @ [k])"
  by (induction gs) force+

lemma groups_append_map_of:
  "map_of (groups_append k x gs) k' =
     (if k' = k then Some ((case map_of gs k of None \<Rightarrow> [] | Some ys \<Rightarrow> ys) @ [x]) else map_of gs k')"
  by (induction gs) auto

lemma groups_inv_append:
  assumes "groups_inv gs dn" "eligible (snd x)"
  shows "groups_inv (groups_append (entry_key (snd x)) x gs) (dn @ [x])"
proof -
  have d: "distinct (map fst (groups_append (entry_key (snd x)) x gs))"
    using assms(1) by (auto simp: groups_append_keys groups_inv_def)
  have m: "map_of gs k = (if grp k dn = [] then None else Some (grp k dn))" for k
    using assms(1) by (simp add: groups_inv_def)
  have "map_of (groups_append (entry_key (snd x)) x gs) k =
          (if grp k (dn @ [x]) = [] then None else Some (grp k (dn @ [x])))" for k
    using assms(2) by (simp add: groups_append_map_of m grp_def)
  then show ?thesis
    unfolding groups_inv_def using d by blast
qed

lemma groups_inv_skip:
  assumes "groups_inv gs dn" "\<not> eligible (snd x)"
  shows "groups_inv gs (dn @ [x])"
proof -
  have eq: "grp k (dn @ [x]) = grp k dn" for k
    using assms(2) by (simp add: grp_def)
  show ?thesis using assms(1) unfolding groups_inv_def eq .
qed

lemma build_groups_inv:
  "groups_inv gs dn \<Longrightarrow> groups_inv (build_groups xs gs) (dn @ xs)"
proof (induction xs gs arbitrary: dn rule: build_groups.induct)
  case (1 gs)
  then show ?case by simp
next
  case (2 i entry rest gs)
  show ?case
  proof (cases "eligible entry")
    case True
    then have "groups_inv (groups_append (entry_key entry) (i, entry) gs) (dn @ [(i, entry)])"
      using groups_inv_append [OF "2.prems", of "(i, entry)"] by simp
    then have "groups_inv (build_groups rest (groups_append (entry_key entry) (i, entry) gs))
                 ((dn @ [(i, entry)]) @ rest)"
      using True by (intro "2.IH"(3)) (auto simp: eligible_def)
    then show ?thesis using True by (auto simp: eligible_def)
  next
    case False
    then have inv: "groups_inv gs (dn @ [(i, entry)])"
      using groups_inv_skip [OF "2.prems", of "(i, entry)"] by simp
    show ?thesis
    proof (cases "e_tp entry = None")
      case True
      then show ?thesis using "2.IH"(1) [OF True inv] by simp
    next
      case ntp: False
      then have "e_isl entry \<noteq> 1024 \<or> e_osl entry \<noteq> 8192"
        using False by (simp add: eligible_def)
      then show ?thesis using "2.IH"(2) [OF ntp _ inv] ntp by simp
    qed
  qed
qed

lemma build_groups_set:
  "(k, es) \<in> set (build_groups xs []) \<longleftrightarrow> es = grp k xs \<and> es \<noteq> []"
proof -
  have "groups_inv [] []" by (simp add: groups_inv_def grp_def)
  from build_groups_inv [OF this, of xs]
  have inv: "groups_inv (build_groups xs []) xs" by simp
  then have "distinct (map fst (build_groups xs []))" by (simp add: groups_inv_def)
  then have "(k, es) \<in> set (build_groups xs []) \<longleftrightarrow> map_of (build_groups xs []) k = Some es"
    by simp
  also have "\<dots> \<longleftrightarrow> es = grp k xs \<and> es \<noteq> []"
  proof -
    have "map_of (build_groups xs []) k = (if grp k xs = [] then None else Some (grp k xs))"
      using inv by (simp add: groups_inv_def)
    then show ?thesis by auto
  qed
  finally show ?thesis .
qed

lemma eval_indices_group:
  "eval_indices gs acc = Inr S \<Longrightarrow> (k, es) \<in> set gs \<Longrightarrow> \<exists>T. group_indices es = Inr T \<and> T \<subseteq> S"
  and eval_indices_acc: "eval_indices gs acc = Inr S \<Longrightarrow> acc \<subseteq> S"
proof (induction gs arbitrary: acc)
  case Nil
  { case 1 then show ?case by simp }
  { case 2 then show ?case by simp }
next
  case (Cons g gs)
  { case 1
    obtain k' es' where g: "g = (k', es')" by (cases g)
    from 1(1) g obtain T where T: "group_indices es' = Inr T" and rest: "eval_indices gs (acc \<union> T) = Inr S"
      by (auto split: sum.splits)
    show ?case
    proof (cases "(k, es) = g")
      case True
      then show ?thesis using T Cons.IH(2) [OF rest] g by auto
    next
      case False
      then show ?thesis using Cons.IH(1) [OF rest] 1(2) by auto
    qed }
  { case 2
    obtain k' es' where g: "g = (k', es')" by (cases g)
    from 2 g obtain T where T: "group_indices es' = Inr T" and rest: "eval_indices gs (acc \<union> T) = Inr S"
      by (auto split: sum.splits)
    show ?case using Cons.IH(2) [OF rest] by auto }
qed

lemma eval_indices_mem:
  "eval_indices gs acc = Inr S \<Longrightarrow> i \<in> S \<Longrightarrow>
   i \<in> acc \<or> (\<exists>k es T. (k, es) \<in> set gs \<and> group_indices es = Inr T \<and> i \<in> T)"
proof (induction gs arbitrary: acc)
  case Nil
  then show ?case by simp
next
  case (Cons g gs)
  obtain k' es' where g: "g = (k', es')" by (cases g)
  from Cons.prems(1) g obtain T where T: "group_indices es' = Inr T" and rest: "eval_indices gs (acc \<union> T) = Inr S"
    by (auto split: sum.splits)
  from Cons.IH [OF rest Cons.prems(2)] show ?case
    using T g by auto
qed

lemma in_set_enumerate0: "(i, e) \<in> set (enumerate 0 m) \<longleftrightarrow> i < length m \<and> e = m ! i"
  by (auto simp: in_set_enumerate_eq)

lemma grp_enumerate_snd:
  "map snd (grp k (enumerate 0 m)) = filter (\<lambda>e. eligible e \<and> entry_key e = k) m"
proof -
  have "map snd (filter (\<lambda>x. P (snd x)) xs) = filter P (map snd xs)" for P and xs :: "(nat \<times> matrix_entry) list"
    by (simp add: filter_map comp_def)
  from this [of "\<lambda>e. eligible e \<and> entry_key e = k" "enumerate 0 m"]
  show ?thesis by (simp add: grp_def)
qed


lemma eval_indices_selected:
  assumes "eval_indices (build_groups (enumerate 0 m) []) {} = Inr S" "i < length m"
  shows "i \<in> S \<longleftrightarrow> eval_selected m (m ! i)"
proof
  assume "i \<in> S"
  with eval_indices_mem [OF assms(1)] obtain k es T
    where g: "(k, es) \<in> set (build_groups (enumerate 0 m) [])"
      and T: "group_indices es = Inr T" and iT: "i \<in> T" by blast
  from g have es: "es = grp k (enumerate 0 m)" by (simp add: build_groups_set)
  from group_indices_Inr [OF T, of i] iT obtain e where e: "(i, e) \<in> set es"
    and sel: "group_selected (map snd es) e" by auto
  from e es have "e = m ! i" "eligible e" "entry_key e = k"
    by (auto simp: grp_def in_set_enumerate0)
  then show "eval_selected m (m ! i)"
    using sel es by (simp add: eval_selected_def same_group_def grp_enumerate_snd)
next
  assume sel: "eval_selected m (m ! i)"
  define k where "k = entry_key (m ! i)"
  define es where "es = grp k (enumerate 0 m)"
  have mem: "(i, m ! i) \<in> set es"
    using sel assms(2) by (auto simp: es_def grp_def k_def eval_selected_def in_set_enumerate0)
  then have "(k, es) \<in> set (build_groups (enumerate 0 m) [])"
    by (auto simp: build_groups_set es_def)
  from eval_indices_group [OF assms(1) this] obtain T where T: "group_indices es = Inr T" and sub: "T \<subseteq> S"
    by blast
  have "group_selected (map snd es) (m ! i)"
    using sel by (simp add: eval_selected_def same_group_def es_def grp_enumerate_snd k_def)
  with mem have "i \<in> T" using group_indices_Inr [OF T, of i] by auto
  with sub show "i \<in> S" by auto
qed

lemma mark_eval_entries_Inr:
  assumes "mark_eval_entries m = Inr m'"
  shows "length m' = length m"
    and "i < length m \<Longrightarrow> m' ! i = (m ! i)\<lparr>e_run_eval := eval_selected m (m ! i)\<rparr>"
proof -
  from assms obtain S where S: "eval_indices (build_groups (enumerate 0 m) []) {} = Inr S"
    and m': "m' = map (\<lambda>(i, entry). entry\<lparr>e_run_eval := (i \<in> S)\<rparr>) (enumerate 0 m)"
    by (auto simp: mark_eval_entries_def split: sum.splits)
  show "length m' = length m" by (simp add: m')
  assume i: "i < length m"
  then have "m' ! i = (m ! i)\<lparr>e_run_eval := (i \<in> S)\<rparr>"
    by (simp add: m' nth_enumerate_eq)
  then show "m' ! i = (m ! i)\<lparr>e_run_eval := eval_selected m (m ! i)\<rparr>"
    using eval_indices_selected [OF S i] by simp
qed

lemma max_from_scalar:
  "is_scalar mx \<Longrightarrow> list_all is_scalar cs \<Longrightarrow> \<exists>r. max_from mx cs = Inr r"
proof (induction cs arbitrary: mx)
  case Nil
  then show ?case by simp
next
  case (Cons c cs)
  from Cons.prems obtain a b where "mx = Scalar a" "c = Scalar b"
    by (auto simp: is_scalar_def split: conc_val.splits)
  then show ?case using Cons.IH [of "if a < b then c else mx"] Cons.prems
    by (auto simp: is_scalar_def)
qed

lemma py_max_scalar: "cs \<noteq> [] \<Longrightarrow> list_all is_scalar cs \<Longrightarrow> \<exists>r. py_max cs = Inr r"
  by (cases cs) (auto intro: max_from_scalar)

lemma max_conc_indices_scalar:
  assumes "list_all (\<lambda>x. is_scalar (e_conc (snd x))) es"
  shows "\<exists>S. max_conc_indices es = Inr S"
proof (cases "es = []")
  case True
  then show ?thesis by (simp add: max_conc_indices_def)
next
  case False
  have "list_all is_scalar (map (\<lambda>(i, e). e_conc e) es)"
    using assms by (simp add: list_all_iff case_prod_unfold)
  with False obtain r where "py_max (map (\<lambda>(i, e). e_conc e) es) = Inr r"
    using py_max_scalar [of "map (\<lambda>(i, e). e_conc e) es"] by auto
  then show ?thesis using False by (simp add: max_conc_indices_def)
qed

lemma get_tps_total:
  "list_all (\<lambda>x. e_tp (snd x) \<noteq> None) es \<Longrightarrow> \<exists>ts. get_tps es = Inr ts"
  by (induction es rule: get_tps.induct) (auto simp: get_tp_def)

lemma group_indices_total:
  assumes "list_all (\<lambda>x. e_tp (snd x) \<noteq> None) es" "list_all (\<lambda>x. is_scalar (e_conc (snd x))) es"
  shows "\<exists>S. group_indices es = Inr S"
proof -
  obtain ts where ts: "get_tps es = Inr ts" using get_tps_total [OF assms(1)] by auto
  have sc: "list_all (\<lambda>x. is_scalar (e_conc (snd x))) (filter P es)" for P
    using assms(2) by (simp add: list_all_iff)
  obtain H where H: "max_conc_indices (filter (\<lambda>(i, e). e_tp e = Some (Max (set ts))) es) = Inr H"
    using max_conc_indices_scalar [OF sc] by blast
  obtain L where L: "max_conc_indices (filter (\<lambda>(i, e). e_tp e = Some (Min (set ts))) es) = Inr L"
    using max_conc_indices_scalar [OF sc] by blast
  show ?thesis by (simp add: group_indices_def ts H L Let_def)
qed

lemma eval_indices_total:
  "(\<And>k es. (k, es) \<in> set gs \<Longrightarrow> \<exists>T. group_indices es = Inr T) \<Longrightarrow> \<exists>S. eval_indices gs acc = Inr S"
proof (induction gs arbitrary: acc)
  case Nil
  then show ?case by simp
next
  case (Cons g gs)
  obtain k es where g: "g = (k, es)" by (cases g)
  then obtain T where T: "group_indices es = Inr T" using Cons.prems [of k es] by auto
  have "\<exists>S. eval_indices gs (acc \<union> T) = Inr S"
    using Cons.prems by (intro Cons.IH) auto
  then show ?case using g T by simp
qed

lemma mark_eval_entries_total:
  assumes "single_node_scalar m"
  shows "\<exists>m'. mark_eval_entries m = Inr m'"
proof -
  have "\<exists>T. group_indices es = Inr T" if "(k, es) \<in> set (build_groups (enumerate 0 m) [])" for k es
  proof -
    from that have es: "es = grp k (enumerate 0 m)" by (simp add: build_groups_set)
    have "e_tp e \<noteq> None \<and> is_scalar (e_conc e)" if "(i, e) \<in> set es" for i e
    proof -
      from that es have "e \<in> set m" "eligible e"
        by (auto simp: grp_def in_set_enumerate0)
      then show ?thesis using assms
        by (auto simp: single_node_scalar_def list_all_iff eligible_def is_scalar_def)
    qed
    then have "list_all (\<lambda>x. e_tp (snd x) \<noteq> None) es" "list_all (\<lambda>x. is_scalar (e_conc (snd x))) es"
      by (auto simp: list_all_iff)
    then show ?thesis by (rule group_indices_total)
  qed
  then obtain S where "eval_indices (build_groups (enumerate 0 m) []) {} = Inr S"
    using eval_indices_total [of "build_groups (enumerate 0 m) []" "{}"] by blast
  then show ?thesis by (simp add: mark_eval_entries_def)
qed

lemmas eval_unfold = mark_eval_entries_def entry_key_def group_indices_def max_conc_indices_def
  get_tp_def enumerate_eq_zip Let_def





lemma mixed_marks: "mark_eval_entries mixed_matrix = Inr mixed_marked"
  by (simp add: eval_unfold mixed_matrix_def mixed_marked_def synthetic_entry_def)

lemma mixed_scalar: "single_node_scalar mixed_matrix"
  by (simp add: single_node_scalar_def mixed_matrix_def synthetic_entry_def is_scalar_def)

text \<open>
  C5. Whatever the matrix and however its entries group, an entry that lacks a top-level
  TP or whose \<open>(isl, osl)\<close> is not \<open>(1024, 8192)\<close> is not marked by eval selection (a run
  that raises marks nothing at all).
\<close>

theorem mark_eval_entries_only_eligible:
  assumes "mark_eval_entries m = Inr m'" and "i < length m"
    and "e_tp (m ! i) = None \<or> (e_isl (m ! i), e_osl (m ! i)) \<noteq> (1024, 8192)"
  shows "\<not> e_run_eval (m' ! i)"
proof -
  have "\<not> eligible (m ! i)" using assms(3) by (auto simp: eligible_def)
  then have "\<not> eval_selected m (m ! i)" by (simp add: eval_selected_def)
  then show ?thesis using mark_eval_entries_Inr(2) [OF assms(1,2)] by simp
qed

theorem mark_eval_entries_only_eligible_witness:
  "mark_eval_entries mixed_matrix = Inr mixed_marked
   \<and> (1::nat) < length mixed_matrix \<and> (2::nat) < length mixed_matrix
   \<and> (e_isl (mixed_matrix ! 1), e_osl (mixed_matrix ! 1)) \<noteq> (1024, 8192)
   \<and> e_tp (mixed_matrix ! 2) = None
   \<and> \<not> e_run_eval (mixed_marked ! 1) \<and> \<not> e_run_eval (mixed_marked ! 2)"
proof -
  have l: "(1::nat) < length mixed_matrix" "(2::nat) < length mixed_matrix"
    by (simp_all add: mixed_matrix_def)
  have h1: "e_tp (mixed_matrix ! 1) = None
             \<or> (e_isl (mixed_matrix ! 1), e_osl (mixed_matrix ! 1)) \<noteq> (1024, 8192)"
    by (simp add: mixed_matrix_def synthetic_entry_def)
  have h2: "e_tp (mixed_matrix ! 2) = None
             \<or> (e_isl (mixed_matrix ! 2), e_osl (mixed_matrix ! 2)) \<noteq> (1024, 8192)"
    by (simp add: mixed_matrix_def synthetic_entry_def)
  have "\<not> e_run_eval (mixed_marked ! 1)"
    by (rule mark_eval_entries_only_eligible [OF mixed_marks l(1) h1])
  moreover have "\<not> e_run_eval (mixed_marked ! 2)"
    by (rule mark_eval_entries_only_eligible [OF mixed_marks l(2) h2])
  moreover have "(e_isl (mixed_matrix ! 1), e_osl (mixed_matrix ! 1)) \<noteq> (1024, 8192)"
    "e_tp (mixed_matrix ! 2) = None"
    by (simp_all add: mixed_matrix_def synthetic_entry_def)
  ultimately show ?thesis using mixed_marks l by simp
qed

text \<open>
  C10. Whenever eval selection returns, the result has the length and the order of the
  input: the entry at every index is the input entry at that index with its eval flag
  overwritten, by true exactly when the entry is selected, and with every other field
  as it was. It returns on every matrix whose single-node entries carry a scalar
  concurrency.
\<close>

theorem mark_eval_entries_frame:
  "(\<forall>m'. mark_eval_entries m = Inr m' \<longrightarrow>
       length m' = length m
       \<and> (\<forall>i<length m. m' ! i = (m ! i)\<lparr>e_run_eval := eval_selected m (m ! i)\<rparr>))
   \<and> (single_node_scalar m \<longrightarrow> (\<exists>m'. mark_eval_entries m = Inr m'))"
proof -
  have "length m' = length m
        \<and> (\<forall>i<length m. m' ! i = (m ! i)\<lparr>e_run_eval := eval_selected m (m ! i)\<rparr>)"
    if "mark_eval_entries m = Inr m'" for m'
    using mark_eval_entries_Inr [OF that] by simp
  moreover have "single_node_scalar m \<longrightarrow> (\<exists>m'. mark_eval_entries m = Inr m')"
    using mark_eval_entries_total by blast
  ultimately show ?thesis by blast
qed

theorem mark_eval_entries_frame_witness:
  "single_node_scalar mixed_matrix
   \<and> mark_eval_entries mixed_matrix = Inr mixed_marked
   \<and> length mixed_marked = length mixed_matrix
   \<and> (1::nat) < length mixed_matrix
   \<and> e_run_eval (mixed_matrix ! 1)
   \<and> mixed_marked ! 1 = (mixed_matrix ! 1)\<lparr>e_run_eval := False\<rparr>
   \<and> \<not> eval_selected mixed_matrix (mixed_matrix ! 1)"
proof -
  have l: "(1::nat) < length mixed_matrix" by (simp add: mixed_matrix_def)
  have fr: "length mixed_marked = length mixed_matrix
        \<and> (\<forall>i<length mixed_matrix.
              mixed_marked ! i
                = (mixed_matrix ! i)\<lparr>e_run_eval := eval_selected mixed_matrix (mixed_matrix ! i)\<rparr>)"
    using mark_eval_entries_frame [of mixed_matrix] mixed_marks by blast
  then have eq: "mixed_marked ! 1
      = (mixed_matrix ! 1)\<lparr>e_run_eval := eval_selected mixed_matrix (mixed_matrix ! 1)\<rparr>"
    using l by blast
  have "\<not> e_run_eval (mixed_marked ! 1)"
    by (simp add: mixed_marked_def synthetic_entry_def)
  then have ns: "\<not> eval_selected mixed_matrix (mixed_matrix ! 1)"
    using eq by simp
  have "e_run_eval (mixed_matrix ! 1)"
    by (simp add: mixed_matrix_def synthetic_entry_def)
  then show ?thesis using mixed_scalar mixed_marks fr l eq ns by simp
qed

subsection \<open>Emission: validation, loops, the shape of the entries\<close>

lemma collect_Inr_set:
  "collect f xs = Some (Inr out) \<Longrightarrow> e \<in> set out \<Longrightarrow>
   \<exists>x\<in>set xs. \<exists>ys. f x = Some (Inr ys) \<and> e \<in> set ys"
  by (induction xs arbitrary: out) (auto split: option.splits sum.splits)

lemma collect_err_Inr_set:
  "collect_err f xs = Inr out \<Longrightarrow> e \<in> set out \<Longrightarrow>
   \<exists>x\<in>set xs. \<exists>ys. f x = Inr ys \<and> e \<in> set ys"
  by (induction xs arbitrary: out) (auto split: sum.splits)

lemma collect_error:
  "collect f xs = Some (Inl err) \<Longrightarrow> \<exists>x\<in>set xs. f x = Some (Inl err)"
  by (induction xs) (auto split: option.splits sum.splits)

lemma single_node_loop_entries_aux:
  assumes "single_node_loop schema_ok emit conc conc_end step acc = Some r"
  shows "\<forall>out. r = Inr out \<longrightarrow> (\<forall>e\<in>set out. e \<in> set acc \<or> (\<exists>c. e \<in> set (emit c)))"
proof (rule single_node_loop.raw_induct
    [where P = "\<lambda>s em c ce st a r. \<forall>out. r = Inr out \<longrightarrow> (\<forall>e\<in>set out. e \<in> set a \<or> (\<exists>c. e \<in> set (em c)))",
     OF _ assms])
  fix loop :: "(matrix_entry \<Rightarrow> bool \<Rightarrow> bool) \<Rightarrow> (int \<Rightarrow> matrix_entry list) \<Rightarrow> int \<Rightarrow> int \<Rightarrow> int
     \<Rightarrow> matrix_entry list \<Rightarrow> (error + matrix_entry list) option"
  fix s em and c ce st :: int and a r
  assume IH: "\<And>s em c ce st a r. loop s em c ce st a = Some r \<Longrightarrow>
      \<forall>out. r = Inr out \<longrightarrow> (\<forall>e\<in>set out. e \<in> set a \<or> (\<exists>c. e \<in> set (em c)))"
  assume body: "(if c \<le> ce then
        (case validate_all s False (em c) of
           Inl err \<Rightarrow> Some (Inl err)
         | Inr entries \<Rightarrow>
             if c = ce then Some (Inr (a @ entries))
             else loop s em (if ce < c * st then ce else c * st) ce st (a @ entries))
      else Some (Inr a)) = Some r"
  show "\<forall>out. r = Inr out \<longrightarrow> (\<forall>e\<in>set out. e \<in> set a \<or> (\<exists>c. e \<in> set (em c)))"
  proof (intro allI impI)
    fix out assume r: "r = Inr out"
    show "\<forall>e\<in>set out. e \<in> set a \<or> (\<exists>c. e \<in> set (em c))"
    proof (cases "c \<le> ce")
      case False
      with body r show ?thesis by simp
    next
      case True
      with body r obtain entries where v: "validate_all s False (em c) = Inr entries"
        by (auto split: sum.splits)
      then have entries: "entries = em c" by (rule validate_all_Inr)
      show ?thesis
      proof (cases "c = ce")
        case True
        with body r v entries \<open>c \<le> ce\<close> show ?thesis by auto
      next
        case False
        with body v True
        have "loop s em (if ce < c * st then ce else c * st) ce st (a @ entries) = Some r"
          by simp
        from IH [OF this] r entries show ?thesis by auto
      qed
    qed
  qed
qed

lemma single_node_loop_entries:
  "single_node_loop schema_ok emit conc conc_end step [] = Some (Inr out) \<Longrightarrow> e \<in> set out \<Longrightarrow>
   \<exists>c. e \<in> set (emit c)"
  using single_node_loop_entries_aux [of schema_ok emit conc conc_end step "[]" "Inr out"] by auto

lemma single_node_point_entries:
  assumes "full_sweep_single_node_point schema_ok args val nodes isl' osl' bmk = Some (Inr out)"
    and "e \<in> set out"
  shows "\<exists>tp conc r. b_tp bmk = Some tp \<and>
           e = single_node_entry val isl' osl' (clamp_to (fs_max_tp args) tp)
                 (map_option (clamp_to (fs_max_ep args)) (b_ep bmk)) (b_dp_attn bmk)
                 (get_spec_decoding bmk) conc r"
proof -
  from assms(2) have ne: "out \<noteq> []" by auto
  with assms(1) obtain tp conc_start conc_end tp1 ep1 cs2 ce2 where
    k: "b_tp bmk = Some tp" "b_conc_start bmk = Some conc_start" "b_conc_end bmk = Some conc_end"
    and f: "max_tp_filter (fs_max_tp args) tp = Some tp1"
      "max_ep_filter (fs_max_ep args) (b_ep bmk) = Some ep1"
    and loop: "single_node_loop schema_ok
            (\<lambda>conc. map (single_node_entry val isl' osl' tp1 ep1 (b_dp_attn bmk)
                            (get_spec_decoding bmk) conc)
                         (runners_for_entry nodes (c_runner val)))
            cs2 ce2 (fs_step_size args) [] = Some (Inr out)"
    by (auto simp: full_sweep_single_node_point_def split: option.splits prod.splits)
  have tp1: "tp1 = clamp_to (fs_max_tp args) tp"
    using f(1) by (auto simp: max_tp_filter_def clamp_to_def split: option.splits if_splits)
  have ep1: "ep1 = map_option (clamp_to (fs_max_ep args)) (b_ep bmk)"
    using f(2) by (cases "b_ep bmk")
      (auto simp: max_ep_filter_def clamp_to_def split: option.splits if_splits)
  from single_node_loop_entries [OF loop assms(2)] show ?thesis
    using k(1) tp1 ep1 by auto
qed




lemma multinode_point_out:
  assumes "full_sweep_multinode_point schema_ok args val nodes isl' osl' bmk = Some (Inr out)"
    and "out \<noteq> []"
  shows "\<exists>p d conc_values at_least kept.
           b_prefill bmk = Some p \<and> b_decode bmk = Some d
         \<and> full_sweep_conc_values (fs_step_size args) bmk = Some (Inr conc_values)
         \<and> min_conc_filter (fs_min_conc args) conc_values = Some at_least
         \<and> max_conc_filter (fs_max_conc args) at_least = Some kept
         \<and> out = map (multinode_entry val isl' osl' (get_spec_decoding bmk) p d kept)
                      (runners_for_entry nodes (c_runner val))"
  using assms
  by (auto simp: full_sweep_multinode_point_def split: if_splits option.splits sum.splits
      dest: validate_all_Inr)

lemma full_sweep_point_entries:
  assumes "full_sweep_point schema_ok args val nodes isl' osl' bmk = Some (Inr out)"
    and "e \<in> set out"
  shows "(\<exists>sd p d kept r. e = multinode_entry val isl' osl' sd p d kept r)
       \<or> (\<exists>tp ep dp sd conc r. e = single_node_entry val isl' osl' tp ep dp sd conc r)"
proof (cases "get_flag (c_multinode val)")
  case True
  with assms(1) have m: "full_sweep_multinode_point schema_ok args val nodes isl' osl' bmk = Some (Inr out)"
    by (simp add: full_sweep_point_def)
  from assms(2) have "out \<noteq> []" by auto
  from multinode_point_out [OF m this] assms(2) show ?thesis by (elim exE conjE) (simp, blast)
next
  case False
  with assms have s: "full_sweep_single_node_point schema_ok args val nodes isl' osl' bmk = Some (Inr out)"
    by (auto simp: full_sweep_point_def split: if_splits)
  from single_node_point_entries [OF s assms(2)] show ?thesis by blast
qed

lemma full_sweep_seq_config_entries:
  assumes "full_sweep_seq_config schema_ok args flt val nodes sc = Some (Inr out)"
    and "e \<in> set out"
  shows "\<exists>isl' osl'. (\<exists>sd p d kept r. e = multinode_entry val isl' osl' sd p d kept r)
       \<or> (\<exists>tp ep dp sd conc r. e = single_node_entry val isl' osl' tp ep dp sd conc r)"
proof -
  from assms have "collect (full_sweep_point schema_ok args val nodes (s_isl sc) (s_osl sc))
                   (s_search_space sc) = Some (Inr out)"
    by (auto simp: full_sweep_seq_config_def split: if_splits)
  from collect_Inr_set [OF this assms(2)] obtain bmk ys where
    "full_sweep_point schema_ok args val nodes (s_isl sc) (s_osl sc) bmk = Some (Inr ys)" "e \<in> set ys"
    by blast
  from full_sweep_point_entries [OF this] show ?thesis by blast
qed

lemma full_sweep_config_entries:
  assumes "full_sweep_config schema_ok args rd flt kv = Some (Inr out)"
    and "e \<in> set out"
  shows "\<exists>val isl' osl'. (\<exists>sd p d kept r. e = multinode_entry val isl' osl' sd p d kept r)
       \<or> (\<exists>tp ep dp sd conc r. e = single_node_entry val isl' osl' tp ep dp sd conc r)"
proof -
  obtain key val where kv: "kv = (key, val)" by (cases kv)
  from assms kv obtain nodes where
    "collect (full_sweep_seq_config schema_ok args flt val nodes) (c_seq_len_configs val) = Some (Inr out)"
    by (auto simp: full_sweep_config_def Let_def split: if_splits)
  from collect_Inr_set [OF this assms(2)] obtain sc ys where
    "full_sweep_seq_config schema_ok args flt val nodes sc = Some (Inr ys)" "e \<in> set ys"
    by blast
  from full_sweep_seq_config_entries [OF this] show ?thesis by blast
qed

lemma generate_full_sweep_entries:
  assumes "generate_full_sweep schema_ok args cfgs rd = Some (Inr out)"
    and "e \<in> set out"
  shows "\<exists>val isl' osl'. (\<exists>sd p d kept r. e = multinode_entry val isl' osl' sd p d kept r)
       \<or> (\<exists>tp ep dp sd conc r. e = single_node_entry val isl' osl' tp ep dp sd conc r)"
proof -
  from assms(1) obtain flt where
    "collect (full_sweep_config schema_ok args rd flt) cfgs = Some (Inr out)"
    by (auto simp: generate_full_sweep_def Let_def split: if_splits sum.splits)
  from collect_Inr_set [OF this assms(2)] obtain kv ys where
    "full_sweep_config schema_ok args rd flt kv = Some (Inr ys)" "e \<in> set ys"
    by blast
  from full_sweep_config_entries [OF this] show ?thesis by blast
qed

lemma test_config_point_entries:
  assumes "test_config_point schema_ok args val isl' osl' bmk = Some (Inr out)"
    and "e \<in> set out"
  shows "(\<exists>sd p d kept r. e = multinode_entry val isl' osl' sd p d kept r)
       \<or> (\<exists>tp ep dp sd conc r. e = single_node_entry val isl' osl' tp ep dp sd conc r)"
  using assms
  by (auto simp: test_config_point_def test_config_multinode_point_def
      test_config_single_node_point_def validate_matrix_entry_def
      split: if_splits option.splits sum.splits dest!: validate_all_Inr; blast)

lemma generate_test_config_sweep_entries:
  assumes "generate_test_config_sweep schema_ok args cfgs = Some (Inr out)"
    and "e \<in> set out"
  shows "\<exists>val isl' osl'. (\<exists>sd p d kept r. e = multinode_entry val isl' osl' sd p d kept r)
       \<or> (\<exists>tp ep dp sd conc r. e = single_node_entry val isl' osl' tp ep dp sd conc r)"
proof -
  from assms(1) have "collect (test_config_key schema_ok args cfgs) (tc_config_keys args) = Some (Inr out)"
    by (auto simp: generate_test_config_sweep_def Let_def split: if_splits)
  from collect_Inr_set [OF this assms(2)] obtain key ys where
    "test_config_key schema_ok args cfgs key = Some (Inr ys)" "e \<in> set ys" by blast
  then obtain val where
    "collect (test_config_seq_len schema_ok args val) (c_seq_len_configs val) = Some (Inr ys)" "e \<in> set ys"
    by (auto simp: test_config_key_def split: option.splits)
  from collect_Inr_set [OF this] obtain sc zs where
    "test_config_seq_len schema_ok args val sc = Some (Inr zs)" "e \<in> set zs" by blast
  then have "collect (test_config_point schema_ok args val (s_isl sc) (s_osl sc)) (s_search_space sc)
       = Some (Inr zs)" "e \<in> set zs"
    by (auto simp: test_config_seq_len_def)
  from collect_Inr_set [OF this] obtain bmk ws where
    "test_config_point schema_ok args val (s_isl sc) (s_osl sc) bmk = Some (Inr ws)" "e \<in> set ws" by blast
  from test_config_point_entries [OF this] show ?thesis by blast
qed

lemma runner_model_config_entries:
  assumes "runner_model_config schema_ok args nodes kv = Inr out" and "e \<in> set out"
  shows "\<exists>val. (\<exists>sd p d c r. e = runner_model_multinode_entry val sd p d c r)
       \<or> (\<exists>t ep dp sd c r. e = runner_model_single_node_entry val t ep dp sd c r)"
proof -
  obtain key val where kv: "kv = (key, val)" by (cases kv)
  from assms(2) have ne: "out \<noteq> []" by auto
  with assms(1) kv obtain target where
    r: "(if get_flag (c_multinode val)
          then runner_model_multinode schema_ok args nodes val target
          else runner_model_single_node schema_ok args nodes val target) = Inr out"
    by (auto simp: runner_model_config_def split: if_splits option.splits)
  show ?thesis
  proof (cases "get_flag (c_multinode val)")
    case True
    with r have "runner_model_multinode schema_ok args nodes val target = Inr out" by simp
    then show ?thesis using assms(2)
      by (auto simp: runner_model_multinode_def split: sum.splits option.splits
          dest!: validate_all_Inr; blast)
  next
    case False
    with r have "runner_model_single_node schema_ok args nodes val target = Inr out" by simp
    then show ?thesis using assms(2)
      by (auto simp: runner_model_single_node_def split: sum.splits option.splits prod.splits
          dest!: validate_all_Inr; blast)
  qed
qed

lemma generate_runner_model_entries:
  assumes "generate_runner_model_sweep_config schema_ok args cfgs rd = Inr out" and "e \<in> set out"
  shows "\<exists>val. (\<exists>sd p d c r. e = runner_model_multinode_entry val sd p d c r)
       \<or> (\<exists>t ep dp sd c r. e = runner_model_single_node_entry val t ep dp sd c r)"
proof -
  from assms(1) obtain nodes where
    "collect_err (runner_model_config schema_ok args nodes) cfgs = Inr out"
    by (auto simp: generate_runner_model_sweep_config_def split: sum.splits)
  from collect_err_Inr_set [OF this assms(2)] obtain kv ys where
    "runner_model_config schema_ok args nodes kv = Inr ys" "e \<in> set ys" by blast
  from runner_model_config_entries [OF this] show ?thesis .
qed

subsection \<open>The multinode concurrency filter\<close>







subsection \<open>Runs on the example catalog; invariants of the emitted entries\<close>

lemmas rm_unfold = generate_runner_model_sweep_config_def resolve_runner_nodes_def
  runner_model_config_def runner_model_single_node_def highest_tp_point_def
  single_node_conc_value_def given_def get_flag_def get_spec_decoding_def
  validate_matrix_entry_def accept_all_def Let_def

lemma example_rm_run:
  "generate_runner_model_sweep_config accept_all example_rm_args example_catalog example_runners
     = Inr [example_rm_entry ''h200-n0'', example_rm_entry ''h200-n1'']"
  by (simp add: rm_unfold example_rm_args_def example_catalog_def example_runners_def
      example_config_def example_profile_def range_point_def example_rm_entry_def)

lemmas fs_unfold = generate_full_sweep_def full_sweep_config_def full_sweep_seq_config_def
  full_sweep_point_def full_sweep_single_node_point_def full_sweep_multinode_point_def
  full_sweep_conc_values_def min_conc_filter_def max_conc_filter_def
  max_tp_filter_def max_ep_filter_def min_conc_narrow_def max_conc_narrow_def
  runners_for_entry_def given_def get_flag_def get_spec_decoding_def
  validate_matrix_entry_def accept_all_def Let_def single_node_loop.simps

lemma example_full_run:
  "generate_full_sweep accept_all example_args example_catalog example_runners
     = Some (Inr [example_full_entry 1 4, example_full_entry 1 8, example_full_entry 2 4,
                  example_full_entry 2 8, example_full_entry 4 4, example_full_entry 4 8])"
  by (simp add: fs_unfold example_args_def example_catalog_def example_runners_def
      example_config_def example_profile_def range_point_def example_full_entry_def list_point_def)

lemma example_multi_run:
  "generate_full_sweep accept_all example_multi_args example_catalog example_runners
     = Some (Inr [example_multi_entry])"
  by (simp add: fs_unfold example_multi_args_def example_args_def example_catalog_def example_runners_def
      example_config_def example_profile_def range_point_def example_multi_entry_def list_point_def)

text \<open>
  C3 (as the code has it). Every entry emitted by full-sweep and by test-config carries
  \<open>max_model_len = isl + osl + 200\<close> of its own sequence lengths; every entry emitted by
  runner-model-sweep carries the fixed \<open>max_model_len = 2048\<close>, with \<open>isl = osl = 1024\<close>.
\<close>

theorem max_model_len_by_mode:
  "(\<forall>out. generate_full_sweep schema_ok fs_args all_config_data runner_data = Some (Inr out) \<longrightarrow>
        (\<forall>e\<in>set out. e_max_model_len e = e_isl e + e_osl e + 200))
   \<and> (\<forall>out. generate_test_config_sweep schema_ok tc_args all_config_data = Some (Inr out) \<longrightarrow>
        (\<forall>e\<in>set out. e_max_model_len e = e_isl e + e_osl e + 200))
   \<and> (\<forall>out. generate_runner_model_sweep_config schema_ok rm_args all_config_data runner_data = Inr out \<longrightarrow>
        (\<forall>e\<in>set out. e_max_model_len e = 2048 \<and> e_isl e = 1024 \<and> e_osl e = 1024))"
proof -
  have a: "e_max_model_len e = e_isl e + e_osl e + 200"
    if "generate_full_sweep schema_ok fs_args all_config_data runner_data = Some (Inr out)"
      "e \<in> set out" for out e
    using generate_full_sweep_entries [OF that]
    by (auto simp: multinode_entry_def single_node_entry_def)
  have b: "e_max_model_len e = e_isl e + e_osl e + 200"
    if "generate_test_config_sweep schema_ok tc_args all_config_data = Some (Inr out)"
      "e \<in> set out" for out e
    using generate_test_config_sweep_entries [OF that]
    by (auto simp: multinode_entry_def single_node_entry_def)
  have c: "e_max_model_len e = 2048 \<and> e_isl e = 1024 \<and> e_osl e = 1024"
    if "generate_runner_model_sweep_config schema_ok rm_args all_config_data runner_data = Inr out"
      "e \<in> set out" for out e
    using generate_runner_model_entries [OF that]
    by (auto simp: runner_model_multinode_entry_def runner_model_single_node_entry_def)
  show ?thesis using a b c by blast
qed

theorem max_model_len_by_mode_witness:
  "generate_full_sweep accept_all example_args example_catalog example_runners
     = Some (Inr [example_full_entry 1 4, example_full_entry 1 8, example_full_entry 2 4,
                  example_full_entry 2 8, example_full_entry 4 4, example_full_entry 4 8])
   \<and> e_max_model_len (example_full_entry 1 4)
       = e_isl (example_full_entry 1 4) + e_osl (example_full_entry 1 4) + 200
   \<and> generate_runner_model_sweep_config accept_all example_rm_args example_catalog example_runners
       = Inr [example_rm_entry ''h200-n0'', example_rm_entry ''h200-n1'']
   \<and> e_max_model_len (example_rm_entry ''h200-n0'') = 2048"
proof -
  note t = max_model_len_by_mode [of accept_all example_args example_catalog example_runners
      _ example_rm_args]
  from t example_full_run
  have "\<forall>e\<in>set [example_full_entry 1 4, example_full_entry 1 8, example_full_entry 2 4,
                  example_full_entry 2 8, example_full_entry 4 4, example_full_entry 4 8].
          e_max_model_len e = e_isl e + e_osl e + 200" by blast
  then have 1: "e_max_model_len (example_full_entry 1 4)
       = e_isl (example_full_entry 1 4) + e_osl (example_full_entry 1 4) + 200" by simp
  from t example_rm_run
  have "\<forall>e\<in>set [example_rm_entry ''h200-n0'', example_rm_entry ''h200-n1''].
          e_max_model_len e = 2048 \<and> e_isl e = 1024 \<and> e_osl e = 1024" by blast
  then have 2: "e_max_model_len (example_rm_entry ''h200-n0'') = 2048" by simp
  from 1 2 example_full_run example_rm_run show ?thesis by simp
qed

text \<open>
  A runner-model-sweep entry: \<open>max_model_len\<close> is \<open>2048\<close>, while \<open>isl + osl + 200\<close> is \<open>2248\<close>.
\<close>

theorem runner_model_max_model_len_fixed:
  "generate_runner_model_sweep_config accept_all example_rm_args example_catalog example_runners
     = Inr [example_rm_entry ''h200-n0'', example_rm_entry ''h200-n1'']
   \<and> e_max_model_len (example_rm_entry ''h200-n0'') = 2048
   \<and> e_isl (example_rm_entry ''h200-n0'') + e_osl (example_rm_entry ''h200-n0'') + 200 = 2248"
  using example_rm_run by (simp add: example_rm_entry_def runner_model_single_node_entry_def)

text \<open>
  C9. In full-sweep, a multinode point that emits anything emits one entry per runner, and
  each of them carries as its concurrency the whole list that the filters leave of the
  point's values (a list, never a scalar); every entry of a single-node point carries one
  scalar; and in the matrix that full-sweep returns the entries with a list are exactly
  the multinode ones (prefill and decode, no top-level TP) and the entries with a scalar
  exactly the single-node ones.
\<close>

theorem full_sweep_conc_shape:
  "(\<forall>out. full_sweep_multinode_point schema_ok args val nodes isl' osl' bmk = Some (Inr out)
           \<and> out \<noteq> [] \<longrightarrow>
        (\<exists>conc_values at_least kept.
            full_sweep_conc_values (fs_step_size args) bmk = Some (Inr conc_values)
          \<and> min_conc_filter (fs_min_conc args) conc_values = Some at_least
          \<and> max_conc_filter (fs_max_conc args) at_least = Some kept
          \<and> length out = length (runners_for_entry nodes (c_runner val))
          \<and> (\<forall>e\<in>set out. e_conc e = ConcList kept)))
   \<and> (\<forall>out. full_sweep_single_node_point schema_ok args val nodes isl' osl' bmk = Some (Inr out) \<longrightarrow>
        (\<forall>e\<in>set out. \<exists>c. e_conc e = Scalar c))
   \<and> (\<forall>out. generate_full_sweep schema_ok args all_config_data runner_data = Some (Inr out) \<longrightarrow>
        (\<forall>e\<in>set out.
            (case e_conc e of
               ConcList cs \<Rightarrow> e_tp e = None \<and> e_prefill e \<noteq> None \<and> e_decode e \<noteq> None
             | Scalar c \<Rightarrow> e_tp e \<noteq> None \<and> e_prefill e = None \<and> e_decode e = None)))"
proof -
  have a: "\<exists>conc_values at_least kept.
            full_sweep_conc_values (fs_step_size args) bmk = Some (Inr conc_values)
          \<and> min_conc_filter (fs_min_conc args) conc_values = Some at_least
          \<and> max_conc_filter (fs_max_conc args) at_least = Some kept
          \<and> length out = length (runners_for_entry nodes (c_runner val))
          \<and> (\<forall>e\<in>set out. e_conc e = ConcList kept)"
    if "full_sweep_multinode_point schema_ok args val nodes isl' osl' bmk = Some (Inr out)"
      "out \<noteq> []" for out
  proof -
    from multinode_point_out [OF that] obtain p d conc_values at_least kept where
      f: "full_sweep_conc_values (fs_step_size args) bmk = Some (Inr conc_values)"
         "min_conc_filter (fs_min_conc args) conc_values = Some at_least"
         "max_conc_filter (fs_max_conc args) at_least = Some kept"
      and out: "out = map (multinode_entry val isl' osl' (get_spec_decoding bmk) p d kept)
                      (runners_for_entry nodes (c_runner val))"
      by blast
    have "length out = length (runners_for_entry nodes (c_runner val))"
      "\<forall>e\<in>set out. e_conc e = ConcList kept"
      by (auto simp: out multinode_entry_def)
    with f show ?thesis by blast
  qed
  have b: "\<exists>c. e_conc e = Scalar c"
    if "full_sweep_single_node_point schema_ok args val nodes isl' osl' bmk = Some (Inr out)"
      "e \<in> set out" for out e
    using single_node_point_entries [OF that] by (auto simp: single_node_entry_def)
  have c: "(case e_conc e of
               ConcList cs \<Rightarrow> e_tp e = None \<and> e_prefill e \<noteq> None \<and> e_decode e \<noteq> None
             | Scalar c \<Rightarrow> e_tp e \<noteq> None \<and> e_prefill e = None \<and> e_decode e = None)"
    if "generate_full_sweep schema_ok args all_config_data runner_data = Some (Inr out)"
      "e \<in> set out" for out e
    using generate_full_sweep_entries [OF that]
    by (auto simp: multinode_entry_def single_node_entry_def)
  show ?thesis using a b c by blast
qed

theorem full_sweep_conc_shape_witness:
  "generate_full_sweep accept_all example_multi_args example_catalog example_runners
     = Some (Inr [example_multi_entry])
   \<and> e_conc example_multi_entry = ConcList [8, 16] \<and> e_tp example_multi_entry = None
   \<and> generate_full_sweep accept_all example_args example_catalog example_runners
     = Some (Inr [example_full_entry 1 4, example_full_entry 1 8, example_full_entry 2 4,
                  example_full_entry 2 8, example_full_entry 4 4, example_full_entry 4 8])
   \<and> e_conc (example_full_entry 2 8) = Scalar 8 \<and> e_tp (example_full_entry 2 8) \<noteq> None"
proof -
  from full_sweep_conc_shape [of accept_all example_multi_args _ _ _ _ _ example_catalog example_runners]
    example_multi_run
  have "\<forall>e\<in>set [example_multi_entry].
            (case e_conc e of
               ConcList cs \<Rightarrow> e_tp e = None \<and> e_prefill e \<noteq> None \<and> e_decode e \<noteq> None
             | Scalar c \<Rightarrow> e_tp e \<noteq> None \<and> e_prefill e = None \<and> e_decode e = None)" by blast
  moreover have m: "e_conc example_multi_entry = ConcList [8, 16]"
    by (simp add: example_multi_entry_def multinode_entry_def)
  ultimately have 1: "e_tp example_multi_entry = None" by simp
  from full_sweep_conc_shape [of accept_all example_args _ _ _ _ _ example_catalog example_runners]
    example_full_run
  have "\<forall>e\<in>set [example_full_entry 1 4, example_full_entry 1 8, example_full_entry 2 4,
                  example_full_entry 2 8, example_full_entry 4 4, example_full_entry 4 8].
            (case e_conc e of
               ConcList cs \<Rightarrow> e_tp e = None \<and> e_prefill e \<noteq> None \<and> e_decode e \<noteq> None
             | Scalar c \<Rightarrow> e_tp e \<noteq> None \<and> e_prefill e = None \<and> e_decode e = None)" by blast
  moreover have s: "e_conc (example_full_entry 2 8) = Scalar 8"
    by (simp add: example_full_entry_def single_node_entry_def)
  ultimately have 2: "e_tp (example_full_entry 2 8) \<noteq> None" by simp
  from 1 2 m s example_multi_run example_full_run show ?thesis by simp
qed

subsection \<open>The key check of test-config\<close>

lemma sublist_within:
  assumes "sublist k b"
  shows "sublist k (a @ b @ c)"
proof -
  obtain ps ss where "b = ps @ k @ ss" using assms by (auto simp: sublist_def)
  then have "a @ b @ c = (a @ ps) @ k @ (ss @ c)" by simp
  then show ?thesis unfolding sublist_def by blast
qed

lemma sublist_join: "k \<in> set ks \<Longrightarrow> sublist k (join sep ks)"
proof (induction sep ks rule: join.induct)
  case (1 sep)
  then show ?case by simp
next
  case (2 sep x)
  then show ?case by simp
next
  case (3 sep x y ys)
  show ?case
  proof (cases "k = x")
    case True
    then show ?thesis by simp
  next
    case False
    with 3 have "sublist k (join sep (y # ys))" by simp
    from sublist_within [OF this, of "x @ sep" "[]"] show ?thesis by simp
  qed
qed

lemma missing_keys_message_names:
  "k \<in> set missing_keys \<Longrightarrow> sublist k (missing_keys_message missing_keys available_keys)"
  "k \<in> set available_keys \<Longrightarrow> sublist k (missing_keys_message missing_keys available_keys)"
proof -
  assume "k \<in> set missing_keys"
  then have "sublist k (join '', '' missing_keys)" by (rule sublist_join)
  from sublist_within [OF this, of "''Config key(s) not found: ''"
      "''.'' @ [CHR 0x0A] @ ''Available keys: '' @ join '', '' available_keys"]
  show "sublist k (missing_keys_message missing_keys available_keys)"
    by (simp add: missing_keys_message_def)
next
  assume "k \<in> set available_keys"
  then have "sublist k (join '', '' available_keys)" by (rule sublist_join)
  from sublist_within [OF this,
      of "''Config key(s) not found: '' @ join '', '' missing_keys @ ''.'' @ [CHR 0x0A] @ ''Available keys: ''" "[]"]
  show "sublist k (missing_keys_message missing_keys available_keys)"
    by (simp add: missing_keys_message_def)
qed

lemma range_of_point_error:
  "range_of_point step bmk = Some (Inl err) \<Longrightarrow> err = KeyError CONC_START \<or> err = KeyError CONC_END"
  by (auto simp: range_of_point_def split: option.splits)

lemma test_config_point_no_ValueError:
  "test_config_point schema_ok args val isl' osl' bmk \<noteq> Some (Inl (ValueError msg))"
proof
  assume a: "test_config_point schema_ok args val isl' osl' bmk = Some (Inl (ValueError msg))"
  have cv: "test_config_conc_values bmk \<noteq> Some (Inl (ValueError msg))"
    using range_of_point_error [of 2 bmk "ValueError msg"]
    by (auto simp: test_config_conc_values_def split: option.splits)
  have v: "validate_all schema_ok b es \<noteq> Inl (ValueError msg)" for b es
    using validate_all_error [of schema_ok b es "ValueError msg"] by auto
  from a cv v show False
    by (auto simp: test_config_point_def test_config_multinode_point_def
        test_config_single_node_point_def validate_matrix_entry_def
        split: if_splits option.splits sum.splits)
qed

lemma test_config_key_no_ValueError:
  "test_config_key schema_ok args cfgs key \<noteq> Some (Inl (ValueError msg))"
proof
  assume a: "test_config_key schema_ok args cfgs key = Some (Inl (ValueError msg))"
  then obtain val where
    "collect (test_config_seq_len schema_ok args val) (c_seq_len_configs val) = Some (Inl (ValueError msg))"
    by (auto simp: test_config_key_def split: option.splits)
  from collect_error [OF this] obtain sc where
    "test_config_seq_len schema_ok args val sc = Some (Inl (ValueError msg))" by blast
  then have "collect (test_config_point schema_ok args val (s_isl sc) (s_osl sc)) (s_search_space sc)
     = Some (Inl (ValueError msg))" by (simp add: test_config_seq_len_def)
  from collect_error [OF this] show False
    using test_config_point_no_ValueError by blast
qed

text \<open>
  C8. Whenever some requested config key is absent from the catalog, test-config returns
  the \<^verbatim>\<open>ValueError\<close> of the key check, whatever the catalog holds otherwise (so before any
  entry is built or validated); its message contains every missing key and every key of
  the catalog. When every requested key is there, no \<^verbatim>\<open>ValueError\<close> is raised.
\<close>

theorem test_config_missing_keys:
  "(filter (\<lambda>key. key \<notin> set (map fst all_config_data)) (tc_config_keys args) \<noteq> [] \<longrightarrow>
      generate_test_config_sweep schema_ok args all_config_data
        = Some (Inl (ValueError
            (missing_keys_message
               (filter (\<lambda>key. key \<notin> set (map fst all_config_data)) (tc_config_keys args))
               (sort (map fst all_config_data)))))
      \<and> (\<forall>key\<in>set (tc_config_keys args). key \<notin> set (map fst all_config_data) \<longrightarrow>
            sublist key (missing_keys_message
               (filter (\<lambda>key. key \<notin> set (map fst all_config_data)) (tc_config_keys args))
               (sort (map fst all_config_data))))
      \<and> (\<forall>key\<in>set (map fst all_config_data).
            sublist key (missing_keys_message
               (filter (\<lambda>key. key \<notin> set (map fst all_config_data)) (tc_config_keys args))
               (sort (map fst all_config_data)))))
   \<and> (filter (\<lambda>key. key \<notin> set (map fst all_config_data)) (tc_config_keys args) = [] \<longrightarrow>
        (\<forall>msg. generate_test_config_sweep schema_ok args all_config_data
                 \<noteq> Some (Inl (ValueError msg))))"
proof -
  define missing where
    "missing = filter (\<lambda>key. key \<notin> set (map fst all_config_data)) (tc_config_keys args)"
  define message where "message = missing_keys_message missing (sort (map fst all_config_data))"
  have a: "generate_test_config_sweep schema_ok args all_config_data = Some (Inl (ValueError message))"
    if "missing \<noteq> []"
    using that by (simp add: generate_test_config_sweep_def missing_def message_def Let_def)
  have b: "sublist key message"
    if "key \<in> set (tc_config_keys args)" "key \<notin> set (map fst all_config_data)" for key
  proof -
    from that have "key \<in> set missing" by (simp add: missing_def)
    then show ?thesis unfolding message_def by (rule missing_keys_message_names(1))
  qed
  have c: "sublist key message" if "key \<in> set (map fst all_config_data)" for key
  proof -
    from that have "key \<in> set (sort (map fst all_config_data))" by simp
    then show ?thesis unfolding message_def by (rule missing_keys_message_names(2))
  qed
  have d: "generate_test_config_sweep schema_ok args all_config_data \<noteq> Some (Inl (ValueError msg))"
    if "missing = []" for msg
  proof
    assume "generate_test_config_sweep schema_ok args all_config_data = Some (Inl (ValueError msg))"
    with that have "collect (test_config_key schema_ok args all_config_data) (tc_config_keys args)
        = Some (Inl (ValueError msg))"
      by (simp add: generate_test_config_sweep_def missing_def Let_def)
    from collect_error [OF this] show False
      using test_config_key_no_ValueError by blast
  qed
  show ?thesis
    using a b c d unfolding missing_def message_def by blast
qed

lemma example_sorted_keys:
  "sort (map fst example_catalog) = [''dsr1-fp8-h200-dynamo'', ''dsr1-fp8-h200-sglang'']"
  by (simp add: example_catalog_def less_eq_char_def less_char_def)

theorem test_config_missing_keys_witness:
  "generate_test_config_sweep accept_all example_tc_args example_catalog
     = Some (Inl (ValueError
         (''Config key(s) not found: no-such-key.'' @ [CHR 0x0A]
            @ ''Available keys: dsr1-fp8-h200-dynamo, dsr1-fp8-h200-sglang'')))
   \<and> sublist ''no-such-key''
         (''Config key(s) not found: no-such-key.'' @ [CHR 0x0A]
            @ ''Available keys: dsr1-fp8-h200-dynamo, dsr1-fp8-h200-sglang'')
   \<and> generate_test_config_sweep accept_all
         (example_tc_args\<lparr>tc_config_keys := [''dsr1-fp8-h200-sglang'']\<rparr>) example_catalog
       \<noteq> Some (Inl (ValueError ''Config key(s) not found: ''))"
proof -
  have keys: "map fst example_catalog = [''dsr1-fp8-h200-sglang'', ''dsr1-fp8-h200-dynamo'']"
    by (simp add: example_catalog_def)
  have m: "filter (\<lambda>key. key \<notin> set (map fst example_catalog)) (tc_config_keys example_tc_args)
             = [''no-such-key'']"
    by (simp add: keys example_tc_args_def)
  have msg: "missing_keys_message [''no-such-key''] (sort (map fst example_catalog))
      = ''Config key(s) not found: no-such-key.'' @ [CHR 0x0A]
            @ ''Available keys: dsr1-fp8-h200-dynamo, dsr1-fp8-h200-sglang''"
    by (simp add: example_sorted_keys missing_keys_message_def)
  have n: "filter (\<lambda>key. key \<notin> set (map fst example_catalog))
             (tc_config_keys (example_tc_args\<lparr>tc_config_keys := [''dsr1-fp8-h200-sglang'']\<rparr>)) = []"
    by (simp add: keys)
  have k: "''no-such-key'' \<in> set (tc_config_keys example_tc_args)"
    "''no-such-key'' \<notin> set (map fst example_catalog)"
    by (simp_all add: keys example_tc_args_def)
  from test_config_missing_keys [of example_catalog example_tc_args accept_all] m msg k
  have 1: "generate_test_config_sweep accept_all example_tc_args example_catalog
     = Some (Inl (ValueError
         (''Config key(s) not found: no-such-key.'' @ [CHR 0x0A]
            @ ''Available keys: dsr1-fp8-h200-dynamo, dsr1-fp8-h200-sglang'')))"
    and 2: "sublist ''no-such-key''
         (''Config key(s) not found: no-such-key.'' @ [CHR 0x0A]
            @ ''Available keys: dsr1-fp8-h200-dynamo, dsr1-fp8-h200-sglang'')"
    by simp_all
  from test_config_missing_keys [of example_catalog
      "example_tc_args\<lparr>tc_config_keys := [''dsr1-fp8-h200-sglang'']\<rparr>" accept_all] n
  have 3: "generate_test_config_sweep accept_all
         (example_tc_args\<lparr>tc_config_keys := [''dsr1-fp8-h200-sglang'']\<rparr>) example_catalog
       \<noteq> Some (Inl (ValueError ''Config key(s) not found: ''))"
    by blast
  from 1 2 3 show ?thesis by blast
qed

subsection \<open>Runner-model-sweep, single-node\<close>

lemma tp_below_mono: "tp_below t x \<Longrightarrow> t \<le> u \<Longrightarrow> tp_below u x"
  by (auto simp: tp_below_def split: option.splits)

lemma tp_at_most_below: "tp_at_most t x \<Longrightarrow> t < u \<Longrightarrow> tp_below u x"
  by (auto simp: tp_at_most_def tp_below_def split: option.splits)











end
